theory Spec2Isabelle
  imports Complex_Main "HOL-Library.Word" "HOL-Library.AList"
begin

section \<open>Basic types shared by the bridge\<close>

text \<open>
  \<open>guint\<close> and \<open>gint\<close> are the 32-bit integers of GLib; \<open>gint\<close> is read in two's
  complement with \<open>sint\<close>.  A \<open>gdouble\<close> is only ever copied and tested with
  \<open>std::isnan\<close> by the code, so it is a tagged value: not-a-number, an infinity with
  its sign, or a finite number.
\<close>

type_synonym guint = "32 word"
type_synonym gint = "32 word"

datatype gdouble = NaN | Infinity bool | Finite rat

definition isnan :: "gdouble \<Rightarrow> bool" where
  "isnan d = (d = NaN)"

text \<open>\<open>std::to_string\<close> on an unsigned value: the decimal digits, most significant first.\<close>

definition digit_char :: "nat \<Rightarrow> char" where
  "digit_char d =
     (if d = 0 then CHR ''0'' else if d = 1 then CHR ''1'' else if d = 2 then CHR ''2''
      else if d = 3 then CHR ''3'' else if d = 4 then CHR ''4'' else if d = 5 then CHR ''5''
      else if d = 6 then CHR ''6'' else if d = 7 then CHR ''7'' else if d = 8 then CHR ''8''
      else CHR ''9'')"

fun to_string :: "nat \<Rightarrow> string" where
  "to_string n =
     (if n < 10 then [digit_char n] else to_string (n div 10) @ [digit_char (n mod 10)])"

declare to_string.simps [simp del]

text \<open>\<open>std::to_string\<close> on a signed 32-bit value.\<close>

definition to_string_int :: "gint \<Rightarrow> string" where
  "to_string_int w =
     (if sint w < 0 then CHR ''-'' # to_string (nat (- sint w)) else to_string (nat (sint w)))"

section \<open>The GeoClue1 backend (geoclue1\_backend.h, geoclue1\_backend.cpp)\<close>

subsection \<open>Data\<close>

record GeoClue1Position =
  latitude :: gdouble
  longitude :: gdouble
  altitude :: gdouble
  accuracy :: gdouble
  speed :: gdouble
  heading :: gdouble
  climb :: gdouble
  timestamp_iso8601 :: string

record GeoClue1Velocity =
  vel_speed :: gdouble
  vel_direction :: gdouble
  vel_climb :: gdouble
  vel_timestamp_iso8601 :: string

text \<open>
  The anonymous struct \<open>m_last_velocity\<close>.  The header declares \<open>is_fresh\<close> as
  \<open>bool\<close>; the integer conversions of C++ on that field are written out below.
\<close>

record last_velocity =
  is_fresh :: bool
  lv_speed :: gdouble
  lv_direction :: gdouble
  lv_climb :: gdouble

text \<open>Integer-to-\<open>bool\<close> conversion (non-zero is true) and \<open>bool\<close> promotion to \<open>int\<close>.\<close>

definition bool_of_int :: "int \<Rightarrow> bool" where
  "bool_of_int i = (i \<noteq> 0)"

definition int_of_bool :: "bool \<Rightarrow> int" where
  "int_of_bool b = (if b then 1 else 0)"

definition VELOCITY_FRESH_STEPS :: nat where
  "VELOCITY_FRESH_STEPS = 2"

text \<open>A proxy is identified by the bus name, object path and interface it was made for.\<close>

datatype GDBusProxy =
  GDBusProxy (proxy_name: string) (proxy_object_path: string) (proxy_interface: string)

record Geoclue1Backend =
  m_connection :: bool
  m_position_callback :: bool
  m_velocity_callback :: bool
  m_tracking :: bool
  m_last_velocity :: last_velocity
  m_master_proxy :: "GDBusProxy option"
  m_client_proxy :: "GDBusProxy option"
  m_provider_proxy :: "GDBusProxy option"
  m_position_proxy :: "GDBusProxy option"
  m_position_provider_subscription_id :: guint
  m_position_subscription_id :: guint
  m_velocity_subscription_id :: guint

text \<open>
  The constructor: \<open>session_ok\<close> says whether \<open>g_bus_get_sync\<close> gave a session-bus
  connection.  All other members take their in-class initialisers.
\<close>

definition Geoclue1Backend_new :: "bool \<Rightarrow> Geoclue1Backend" where
  "Geoclue1Backend_new session_ok =
     \<lparr> m_connection = session_ok,
       m_position_callback = False,
       m_velocity_callback = False,
       m_tracking = False,
       m_last_velocity =
         \<lparr> is_fresh = False, lv_speed = Finite (- 1), lv_direction = Finite (- 1),
           lv_climb = Finite (- 1) \<rparr>,
       m_master_proxy = None,
       m_client_proxy = None,
       m_provider_proxy = None,
       m_position_proxy = None,
       m_position_provider_subscription_id = 0,
       m_position_subscription_id = 0,
       m_velocity_subscription_id = 0 \<rparr>"

definition set_position_callback :: "Geoclue1Backend \<Rightarrow> Geoclue1Backend" where
  "set_position_callback b = b\<lparr>m_position_callback := True\<rparr>"

definition set_velocity_callback :: "Geoclue1Backend \<Rightarrow> Geoclue1Backend" where
  "set_velocity_callback b = b\<lparr>m_velocity_callback := True\<rparr>"

subsection \<open>Position and velocity signals\<close>

text \<open>The payload \<open>(iiddd(idd))\<close> of \<open>PositionChanged\<close> and \<open>(iiddd)\<close> of \<open>VelocityChanged\<close>.\<close>

record position_payload =
  p_fields :: gint
  p_timestamp :: gint
  p_latitude :: gdouble
  p_longitude :: gdouble
  p_altitude :: gdouble
  p_accuracy_level :: gint
  p_accuracy_h :: gdouble
  p_accuracy_v :: gdouble

record velocity_payload =
  v_fields :: gint
  v_timestamp :: gint
  v_speed :: gdouble
  v_direction :: gdouble
  v_climb :: gdouble

text \<open>
  \<open>on_position_changed\<close>: \<open>user_data\<close> is the backend or null.  The result is the
  backend afterwards and the records handed to the position callback, in order.
\<close>

definition on_position_changed ::
  "position_payload \<Rightarrow> Geoclue1Backend option \<Rightarrow> Geoclue1Backend option \<times> GeoClue1Position list"
where
  "on_position_changed parameters user_data =
     (case user_data of
        None \<Rightarrow> (None, [])
      | Some backend \<Rightarrow>
          let lv = m_last_velocity backend;
              pos0 = \<lparr> latitude = p_latitude parameters,
                       longitude = p_longitude parameters,
                       altitude = p_altitude parameters,
                       accuracy = p_accuracy_h parameters,
                       speed = Finite (- 1),
                       heading = Finite (- 1),
                       climb = Finite (- 1),
                       timestamp_iso8601 = to_string_int (p_timestamp parameters) \<rparr>;
              (pos, backend') =
                (if int_of_bool (is_fresh lv) > 0
                 then (pos0\<lparr>speed := lv_speed lv, heading := lv_direction lv, climb := lv_climb lv\<rparr>,
                       backend\<lparr>m_last_velocity :=
                         lv\<lparr>is_fresh := bool_of_int (int_of_bool (is_fresh lv) - 1)\<rparr>\<rparr>)
                 else (pos0\<lparr>speed := Finite (- 1), heading := Finite (- 1), climb := Finite (- 1)\<rparr>,
                       backend))
          in (Some backend', if m_position_callback backend' then [pos] else []))"

text \<open>
  \<open>on_velocity_changed\<close>: stores the sanitised values, assigns the \<open>size_t\<close> constant
  to the \<open>bool\<close> field, and hands the raw values to the velocity callback.
\<close>

definition on_velocity_changed ::
  "velocity_payload \<Rightarrow> Geoclue1Backend option \<Rightarrow> Geoclue1Backend option \<times> GeoClue1Velocity list"
where
  "on_velocity_changed parameters user_data =
     (case user_data of
        None \<Rightarrow> (None, [])
      | Some backend \<Rightarrow>
          let lv = \<lparr> is_fresh = bool_of_int (int VELOCITY_FRESH_STEPS),
                     lv_speed = (if isnan (v_speed parameters) then Finite (- 1) else v_speed parameters),
                     lv_direction =
                       (if isnan (v_direction parameters) then Finite (- 1) else v_direction parameters),
                     lv_climb = (if isnan (v_climb parameters) then Finite (- 1) else v_climb parameters) \<rparr>;
              backend' = backend\<lparr>m_last_velocity := lv\<rparr>;
              velocity = \<lparr> vel_speed = v_speed parameters,
                           vel_direction = v_direction parameters,
                           vel_climb = v_climb parameters,
                           vel_timestamp_iso8601 = to_string_int (v_timestamp parameters) \<rparr>
          in (Some backend', if m_velocity_callback backend' then [velocity] else []))"

subsection \<open>The session bus as seen by the backend\<close>

text \<open>
  Every outbound bus operation is recorded, in program order.  \<open>ProxyNewSync\<close> is
  \<open>g_dbus_proxy_new_sync\<close> (bus name, object path, interface), \<open>ProxyCallSync\<close> is
  \<open>g_dbus_proxy_call_sync\<close> (proxy, method, integer arguments), \<open>SignalSubscribe\<close> is
  \<open>g_dbus_connection_signal_subscribe\<close> (sender, interface, member, object path; an
  empty sender stands for the null pointer), \<open>SignalUnsubscribe\<close> takes the
  subscription id and \<open>ObjectUnref\<close> is \<open>g_object_unref\<close> on a proxy.
\<close>

datatype bus_call =
    ProxyNewSync string string string
  | ProxyCallSync GDBusProxy string "int list"
  | SignalSubscribe string string string string
  | SignalUnsubscribe guint
  | ObjectUnref GDBusProxy

text \<open>
  What the bus answers during one operation: whether a proxy can be constructed, whether
  a method call returns a result, the object path \<open>Master.Create\<close> returns, and the
  id a signal subscription gets (by member name).
\<close>

record bus_env =
  proxy_new_ok :: "string \<Rightarrow> string \<Rightarrow> string \<Rightarrow> bool"
  call_ok :: "GDBusProxy \<Rightarrow> string \<Rightarrow> bool"
  create_path :: string
  subscribe_id :: "string \<Rightarrow> guint"

definition Master_name :: string where
  "Master_name = ''org.freedesktop.Geoclue.Master''"

definition Master_path :: string where
  "Master_path = ''/org/freedesktop/Geoclue/Master''"

definition MasterClient_iface :: string where
  "MasterClient_iface = ''org.freedesktop.Geoclue.MasterClient''"

definition Geoclue_iface :: string where
  "Geoclue_iface = ''org.freedesktop.Geoclue''"

definition Position_iface :: string where
  "Position_iface = ''org.freedesktop.Geoclue.Position''"

definition Velocity_iface :: string where
  "Velocity_iface = ''org.freedesktop.Geoclue.Velocity''"

subsection \<open>Starting and stopping\<close>

definition unsubscribe_signals :: "Geoclue1Backend \<Rightarrow> Geoclue1Backend \<times> bus_call list" where
  "unsubscribe_signals b =
     (let (b1, c1) =
            (if m_position_subscription_id b \<noteq> 0
             then (b\<lparr>m_position_subscription_id := 0\<rparr>,
                   [SignalUnsubscribe (m_position_subscription_id b)])
             else (b, []));
          (b2, c2) =
            (if m_velocity_subscription_id b1 \<noteq> 0
             then (b1\<lparr>m_velocity_subscription_id := 0\<rparr>,
                   [SignalUnsubscribe (m_velocity_subscription_id b1)])
             else (b1, []));
          (b3, c3) =
            (if m_position_provider_subscription_id b2 \<noteq> 0
             then (b2\<lparr>m_position_provider_subscription_id := 0\<rparr>,
                   [SignalUnsubscribe (m_position_provider_subscription_id b2)])
             else (b2, []))
      in (b3, c1 @ c2 @ c3))"

text \<open>
  \<open>ensure_master_client\<close>, with each early \<open>return false\<close> as a branch.  The members
  written before a failing step keep their values.  The function hands one \<open>GError\<close>
  pointer to all its bus calls and frees it after a failure without resetting it; where
  it carries on after a failure (the \<open>AddReference\<close> call on the client), a later call
  is given the stale pointer, which GLib does not define.  That is not modelled: every
  call succeeds or fails as \<open>bus_env\<close> says, whatever failed before.
\<close>

definition ensure_master_client ::
  "bus_env \<Rightarrow> Geoclue1Backend \<Rightarrow> bool \<times> Geoclue1Backend \<times> bus_call list"
where
  "ensure_master_client env b =
     (if m_master_proxy b \<noteq> None \<and> m_client_proxy b \<noteq> None then (True, b, [])
      else if \<not> m_connection b then (False, b, [])
      else
        (case (case m_master_proxy b of
                 Some mp \<Rightarrow> (Some mp, [])
               | None \<Rightarrow>
                   (if proxy_new_ok env Master_name Master_path Master_name
                    then Some (GDBusProxy Master_name Master_path Master_name) else None,
                    [ProxyNewSync Master_name Master_path Master_name])) of
           (None, c1) \<Rightarrow> (False, b, c1)
         | (Some mp, c1) \<Rightarrow>
             let b1 = b\<lparr>m_master_proxy := Some mp\<rparr>;
                 c2 = c1 @ [ProxyCallSync mp ''Create'' []]
             in if \<not> call_ok env mp ''Create'' then (False, b1, c2)
                else
                  let client_path = create_path env
                  in if client_path = [] then (False, b1, c2)
                     else
                       let b2 = b1\<lparr>m_position_provider_subscription_id :=
                                     subscribe_id env ''PositionProviderChanged''\<rparr>;
                           c3 = c2 @ [SignalSubscribe [] MasterClient_iface
                                        ''PositionProviderChanged'' client_path,
                                      ProxyNewSync Master_name client_path MasterClient_iface]
                       in if \<not> proxy_new_ok env Master_name client_path MasterClient_iface
                          then (False, b2\<lparr>m_client_proxy := None\<rparr>, c3)
                          else
                            let cp = GDBusProxy Master_name client_path MasterClient_iface;
                                b3 = b2\<lparr>m_client_proxy := Some cp\<rparr>;
                                gp = GDBusProxy Master_name client_path Geoclue_iface;
                                c4 = c3 @ [ProxyNewSync Master_name client_path Geoclue_iface]
                                     @ (if proxy_new_ok env Master_name client_path Geoclue_iface
                                        then [ProxyCallSync gp ''AddReference'' [], ObjectUnref gp]
                                        else []);
                                c5 = c4 @ [ProxyCallSync cp ''SetRequirements'' [0, 0, 1, 2 ^ 10 - 1]]
                            in if \<not> call_ok env cp ''SetRequirements'' then (False, b3, c5)
                               else
                                 let c6 = c5 @ [ProxyCallSync cp ''PositionStart'' []]
                                 in if \<not> call_ok env cp ''PositionStart'' then (False, b3, c6)
                                    else (True, b3, c6)))"

definition destroy_master_client ::
  "bus_env \<Rightarrow> Geoclue1Backend \<Rightarrow> Geoclue1Backend \<times> bus_call list"
where
  "destroy_master_client env b =
     (let (b1, c1) =
            (case m_position_proxy b of
               Some pp \<Rightarrow> (b\<lparr>m_position_proxy := None\<rparr>, [ObjectUnref pp])
             | None \<Rightarrow> (b, []));
          (b2, c2) =
            (case m_provider_proxy b1 of
               Some prov \<Rightarrow>
                 (b1\<lparr>m_provider_proxy := None\<rparr>,
                  [ProxyCallSync prov ''RemoveReference'' [], ObjectUnref prov])
             | None \<Rightarrow> (b1, []));
          (b3, c3) =
            (case m_client_proxy b2 of
               Some cp \<Rightarrow>
                 (b2\<lparr>m_client_proxy := None\<rparr>,
                  [ProxyNewSync (proxy_name cp) (proxy_object_path cp) Geoclue_iface]
                  @ (if proxy_new_ok env (proxy_name cp) (proxy_object_path cp) Geoclue_iface
                     then [ProxyCallSync (GDBusProxy (proxy_name cp) (proxy_object_path cp) Geoclue_iface)
                             ''RemoveReference'' [],
                           ObjectUnref (GDBusProxy (proxy_name cp) (proxy_object_path cp) Geoclue_iface)]
                     else [])
                  @ [ObjectUnref cp])
             | None \<Rightarrow> (b2, []));
          (b4, c4) =
            (case m_master_proxy b3 of
               Some mp \<Rightarrow> (b3\<lparr>m_master_proxy := None\<rparr>, [ObjectUnref mp])
             | None \<Rightarrow> (b3, []))
      in (b4\<lparr>m_tracking := False\<rparr>, c1 @ c2 @ c3 @ c4))"

definition start_tracking :: "bus_env \<Rightarrow> Geoclue1Backend \<Rightarrow> Geoclue1Backend \<times> bus_call list" where
  "start_tracking env b =
     (if m_tracking b then (b, [])
      else
        (case ensure_master_client env b of
           (False, b1, c1) \<Rightarrow> (b1, c1)
         | (True, b1, c1) \<Rightarrow> (b1\<lparr>m_tracking := True\<rparr>, c1)))"

definition stop_tracking :: "bus_env \<Rightarrow> Geoclue1Backend \<Rightarrow> Geoclue1Backend \<times> bus_call list" where
  "stop_tracking env b =
     (let (b1, c1) =
            (if \<not> m_tracking b then (b, [])
             else (let (b', c') = unsubscribe_signals b in (b'\<lparr>m_tracking := False\<rparr>, c')));
          (b2, c2) = destroy_master_client env b1
      in (b2, c1 @ c2))"

subsection \<open>Provider selection\<close>

text \<open>
  \<open>on_position_provider_changed\<close>; the payload is \<open>(ssss)\<close> = name, description,
  service, path, a null string being the empty one.  As in \<open>ensure_master_client\<close>, a
  bus call that follows a failed one is taken to succeed or fail as \<open>bus_env\<close> says,
  although the code hands it the freed \<open>GError\<close> pointer of the failed call.
\<close>

definition on_position_provider_changed ::
  "bus_env \<Rightarrow> string \<times> string \<times> string \<times> string \<Rightarrow> Geoclue1Backend option
     \<Rightarrow> Geoclue1Backend option \<times> bus_call list"
where
  "on_position_provider_changed env parameters user_data =
     (case user_data of
        None \<Rightarrow> (None, [])
      | Some backend \<Rightarrow>
          (case parameters of (name, description, service_c, path_c) \<Rightarrow>
             if service_c = [] \<or> path_c = [] then (Some backend, [])
             else
               let (b1, c1) =
                     (case m_position_proxy backend of
                        Some pp \<Rightarrow> (backend\<lparr>m_position_proxy := None\<rparr>, [ObjectUnref pp])
                      | None \<Rightarrow> (backend, []));
                   (b2, c2) =
                     (case m_provider_proxy b1 of
                        Some prov \<Rightarrow>
                          (b1\<lparr>m_provider_proxy := None\<rparr>,
                           [ProxyCallSync prov ''RemoveReference'' [], ObjectUnref prov])
                      | None \<Rightarrow> (b1, []));
                   c3 = c1 @ c2 @ [ProxyNewSync service_c path_c Geoclue_iface]
               in if \<not> proxy_new_ok env service_c path_c Geoclue_iface
                  then (Some (b2\<lparr>m_provider_proxy := None\<rparr>), c3)
                  else
                    let prov' = GDBusProxy service_c path_c Geoclue_iface;
                        b3 = b2\<lparr>m_provider_proxy := Some prov'\<rparr>;
                        c4 = c3 @ [ProxyCallSync prov' ''AddReference'' [],
                                   ProxyNewSync service_c path_c Position_iface]
                    in if \<not> proxy_new_ok env service_c path_c Position_iface
                       then (Some (b3\<lparr>m_position_proxy := None\<rparr>), c4)
                       else
                         let b4 = b3\<lparr>m_position_proxy :=
                                       Some (GDBusProxy service_c path_c Position_iface)\<rparr>;
                             b5 = b4\<lparr>m_position_subscription_id :=
                                       subscribe_id env ''PositionChanged''\<rparr>;
                             b6 = b5\<lparr>m_velocity_subscription_id :=
                                       subscribe_id env ''VelocityChanged''\<rparr>
                         in (Some b6,
                             c4 @ [SignalSubscribe service_c Position_iface ''PositionChanged'' path_c,
                                   SignalSubscribe service_c Velocity_iface ''VelocityChanged'' path_c])))"

section \<open>The GeoClue2 client (geoclue2\_client.h, geoclue2\_client.cpp)\<close>

text \<open>
  The generated skeleton holds the exported properties.  \<open>client_skeleton\<close> is
  \<open>None\<close> for the null pointer the constructor leaves behind when the export fails;
  \<open>m_registration_id\<close> is non-zero exactly when the skeleton is there, so it has
  no field of its own.
\<close>

record GClueClientSkeleton =
  sk_location :: string
  sk_distance_threshold :: guint
  sk_time_threshold :: guint
  sk_desktop_id :: string
  sk_requested_accuracy_level :: guint
  sk_active :: bool

record GeoClue2Client =
  m_object_path :: string
  client_skeleton :: "GClueClientSkeleton option"
  m_active :: bool
  m_desktop_id :: string
  m_requested_accuracy_level :: guint
  m_distance_threshold :: guint
  m_time_threshold :: guint
  m_location_path :: string
  m_active_changed_callback :: bool

text \<open>
  What a client does towards the outside: it calls the active-changed callback, completes
  or fails the pending method invocation, and emits \<open>LocationUpdated(old, new)\<close>.
\<close>

datatype client_signal =
    ActiveChangedCallback bool
  | CompleteStart
  | CompleteStop
  | ReturnErrorLiteral string
  | EmitLocationUpdated string string

text \<open>
  The constructor, as the manager calls it (with a connection and itself);
  \<open>export_ok\<close> says whether the skeleton could be exported at the object path.
\<close>

definition GeoClue2Client_new :: "string \<Rightarrow> bool \<Rightarrow> GeoClue2Client" where
  "GeoClue2Client_new object_path export_ok =
     \<lparr> m_object_path = object_path,
       client_skeleton =
         (if export_ok
          then Some \<lparr> sk_location = ''/'', sk_distance_threshold = 0, sk_time_threshold = 0,
                      sk_desktop_id = [], sk_requested_accuracy_level = 0, sk_active = False \<rparr>
          else None),
       m_active = False,
       m_desktop_id = [],
       m_requested_accuracy_level = 0,
       m_distance_threshold = 0,
       m_time_threshold = 0,
       m_location_path = ''/'',
       m_active_changed_callback = False \<rparr>"

definition set_active_changed_callback :: "GeoClue2Client \<Rightarrow> GeoClue2Client" where
  "set_active_changed_callback c = c\<lparr>m_active_changed_callback := True\<rparr>"

definition set_active :: "bool \<Rightarrow> GeoClue2Client \<Rightarrow> GeoClue2Client \<times> client_signal list" where
  "set_active active c =
     (if m_active c = active then (c, [])
      else
        let c1 = c\<lparr>m_active := active\<rparr>;
            c2 = (case client_skeleton c1 of
                    Some sk \<Rightarrow> c1\<lparr>client_skeleton := Some (sk\<lparr>sk_active := m_active c1\<rparr>)\<rparr>
                  | None \<Rightarrow> c1)
        in (c2, if m_active_changed_callback c2 then [ActiveChangedCallback (m_active c2)] else []))"

definition notify_location_update ::
  "string \<Rightarrow> GeoClue2Client \<Rightarrow> GeoClue2Client \<times> client_signal list"
where
  "notify_location_update new_location_path c =
     (case client_skeleton c of
        None \<Rightarrow> (c, [])
      | Some sk \<Rightarrow>
          if \<not> m_active c then (c, [])
          else
            let old_location = m_location_path c;
                c1 = c\<lparr>m_location_path := new_location_path\<rparr>;
                c2 = c1\<lparr>client_skeleton := Some (sk\<lparr>sk_location := m_location_path c1\<rparr>)\<rparr>
            in (c2, [EmitLocationUpdated old_location new_location_path]))"

text \<open>The method handlers; \<open>user_data\<close> is the client or null.\<close>

definition on_handle_start ::
  "GeoClue2Client option \<Rightarrow> GeoClue2Client option \<times> client_signal list"
where
  "on_handle_start user_data =
     (case user_data of
        None \<Rightarrow> (None, [ReturnErrorLiteral ''Internal error: client is null''])
      | Some client \<Rightarrow>
          if m_active client then (Some client, [CompleteStart])
          else (let (c, sigs) = set_active True client in (Some c, sigs @ [CompleteStart])))"

definition on_handle_stop ::
  "GeoClue2Client option \<Rightarrow> GeoClue2Client option \<times> client_signal list"
where
  "on_handle_stop user_data =
     (case user_data of
        None \<Rightarrow> (None, [ReturnErrorLiteral ''Internal error: client is null''])
      | Some client \<Rightarrow>
          if \<not> m_active client then (Some client, [CompleteStop])
          else (let (c, sigs) = set_active False client in (Some c, sigs @ [CompleteStop])))"

text \<open>The destructor up to the point where the object is gone.\<close>

definition GeoClue2Client_destructor ::
  "GeoClue2Client \<Rightarrow> GeoClue2Client \<times> client_signal list"
where
  "GeoClue2Client_destructor c =
     (let (c1, sigs) = (if m_active c then set_active False c else (c, []))
      in (c1\<lparr>client_skeleton := None\<rparr>, sigs))"

section \<open>The GeoClue2 location (geoclue2\_location.h, geoclue2\_location.cpp)\<close>

text \<open>
  A location object with the numeric properties \<open>set_from_geoclue1_position\<close> copies
  into its skeleton.  The \<open>Timestamp\<close> property, which reads the wall clock when the
  string does not parse, is left out.
\<close>

record GeoClue2Location =
  loc_object_path :: string
  loc_latitude :: gdouble
  loc_longitude :: gdouble
  loc_accuracy :: gdouble
  loc_altitude :: gdouble
  loc_speed :: gdouble
  loc_heading :: gdouble
  loc_description :: string

definition GeoClue2Location_new :: "string \<Rightarrow> GeoClue2Location" where
  "GeoClue2Location_new object_path =
     \<lparr> loc_object_path = object_path, loc_latitude = Finite 0, loc_longitude = Finite 0,
       loc_accuracy = Finite 0, loc_altitude = Finite 0, loc_speed = Finite 0,
       loc_heading = Finite 0, loc_description = [] \<rparr>"

definition set_from_geoclue1_position :: "GeoClue1Position \<Rightarrow> GeoClue2Location \<Rightarrow> GeoClue2Location" where
  "set_from_geoclue1_position pos l =
     l\<lparr> loc_latitude := latitude pos, loc_longitude := longitude pos, loc_accuracy := accuracy pos,
        loc_altitude := altitude pos, loc_speed := speed pos, loc_heading := heading pos,
        loc_description := [] \<rparr>"

section \<open>The GeoClue2 manager (geoclue2\_manager.h, geoclue2\_manager.cpp)\<close>

subsection \<open>Data\<close>

definition MAX_STORED_LOCATIONS :: nat where
  "MAX_STORED_LOCATIONS = 25"

definition Client_prefix :: string where
  "Client_prefix = ''/org/freedesktop/GeoClue2/Client/''"

definition Location_prefix :: string where
  "Location_prefix = ''/org/freedesktop/GeoClue2/Location/''"

definition client_path_of :: "guint \<Rightarrow> string" where
  "client_path_of n = Client_prefix @ to_string (unat n)"

definition location_path_of :: "guint \<Rightarrow> string" where
  "location_path_of n = Location_prefix @ to_string (unat n)"

record GClueManagerSkeleton =
  in_use :: bool
  available_accuracy_level :: guint

text \<open>
  What the manager does towards GLib, the backend and the bus, in program order.
  \<open>ClientSignal\<close> carries the object path of the client that acted.
\<close>

datatype manager_effect =
    GSourceRemove guint
  | GTimeoutAdd guint
  | BackendStartTracking
  | BackendStopTracking
  | BusWatchName string
  | ClientSignal string client_signal

text \<open>
  The two registries hold \<open>shared_ptr\<close>s to client objects.  An object is named by its
  address; \<open>objects\<close> is the heap of the client objects that are alive, in allocation
  order, and \<open>next_address\<close> the next unused address.  An \<open>unordered_map\<close> is an
  association list with one entry per key, its order standing for the iteration order.
  \<open>effects\<close> is the log of outside effects so far.
\<close>

record GeoClue2Manager =
  manager_skeleton :: "GClueManagerSkeleton option"
  m_backend :: bool
  objects :: "(nat \<times> GeoClue2Client) list"
  next_address :: nat
  m_clients_by_peer :: "(string \<times> nat) list"
  m_clients_by_path :: "(string \<times> nat) list"
  m_next_client_id :: guint
  m_next_location_id :: guint
  m_locations :: "GeoClue2Location list"
  m_active_clients :: guint
  m_grace_timeout_ms :: guint
  m_grace_timeout_id :: guint
  effects :: "manager_effect list"

text \<open>
  The constructor; \<open>export_ok\<close> says whether the skeleton could be exported.  The grace
  period takes its in-class initialiser, and the class has no member function that
  assigns it.
\<close>

definition GeoClue2Manager_new :: "bool \<Rightarrow> GeoClue2Manager" where
  "GeoClue2Manager_new export_ok =
     \<lparr> manager_skeleton =
         (if export_ok then Some \<lparr> in_use = False, available_accuracy_level = 8 \<rparr> else None),
       m_backend = False,
       objects = [],
       next_address = 0,
       m_clients_by_peer = [],
       m_clients_by_path = [],
       m_next_client_id = 0,
       m_next_location_id = 0,
       m_locations = [],
       m_active_clients = 0,
       m_grace_timeout_ms = 15000,
       m_grace_timeout_id = 0,
       effects = [] \<rparr>"

definition set_backend :: "bool \<Rightarrow> GeoClue2Manager \<Rightarrow> GeoClue2Manager" where
  "set_backend backend s = s\<lparr>m_backend := backend\<rparr>"

definition emit :: "manager_effect list \<Rightarrow> GeoClue2Manager \<Rightarrow> GeoClue2Manager" where
  "emit es s = s\<lparr>effects := effects s @ es\<rparr>"

text \<open>
  \<open>g_timeout_add\<close> returns a non-zero source id.  The manager only compares the id with
  0 and hands it back to \<open>g_source_remove\<close>, so one fixed non-zero id stands for it.
\<close>

definition glib_source_id :: guint where
  "glib_source_id = 1"

subsection \<open>Active-client accounting\<close>

definition update_in_use_property :: "GeoClue2Manager \<Rightarrow> GeoClue2Manager" where
  "update_in_use_property s =
     (case manager_skeleton s of
        Some sk \<Rightarrow> s\<lparr>manager_skeleton := Some (sk\<lparr>in_use := (m_active_clients s > 0)\<rparr>)\<rparr>
      | None \<Rightarrow> s)"

definition remove_grace_timeout :: "GeoClue2Manager \<Rightarrow> GeoClue2Manager" where
  "remove_grace_timeout s =
     (if m_grace_timeout_id s \<noteq> 0
      then (emit [GSourceRemove (m_grace_timeout_id s)] s)\<lparr>m_grace_timeout_id := 0\<rparr>
      else s)"

definition client_became_active :: "GeoClue2Manager \<Rightarrow> GeoClue2Manager" where
  "client_became_active s =
     (let s1 = remove_grace_timeout s;
          s2 = s1\<lparr>m_active_clients := m_active_clients s1 + 1\<rparr>;
          s3 = update_in_use_property s2
      in if m_active_clients s3 = 1 \<and> m_backend s3 then emit [BackendStartTracking] s3 else s3)"

definition client_became_inactive :: "GeoClue2Manager \<Rightarrow> GeoClue2Manager" where
  "client_became_inactive s =
     (if m_active_clients s = 0 then s
      else
        let s1 = s\<lparr>m_active_clients := m_active_clients s - 1\<rparr>;
            s2 = update_in_use_property s1
        in if m_active_clients s2 = 0
           then (let s3 = remove_grace_timeout s2
                 in (emit [GTimeoutAdd (m_grace_timeout_ms s3)] s3)
                      \<lparr>m_grace_timeout_id := glib_source_id\<rparr>)
           else s2)"

definition on_grace_timeout :: "GeoClue2Manager \<Rightarrow> GeoClue2Manager" where
  "on_grace_timeout s =
     (let s1 = s\<lparr>m_grace_timeout_id := 0\<rparr>
      in if m_active_clients s1 = 0 \<and> m_backend s1 then emit [BackendStopTracking] s1 else s1)"

text \<open>
  What a client signal does in the manager: the callback installed by
  \<open>create_client_for_peer\<close> runs the accounting, everything else goes out on the bus.
\<close>

fun deliver :: "string \<Rightarrow> client_signal \<Rightarrow> GeoClue2Manager \<Rightarrow> GeoClue2Manager" where
  "deliver path (ActiveChangedCallback active) s =
     (if active then client_became_active s else client_became_inactive s)"
| "deliver path CompleteStart s = emit [ClientSignal path CompleteStart] s"
| "deliver path CompleteStop s = emit [ClientSignal path CompleteStop] s"
| "deliver path (ReturnErrorLiteral m) s = emit [ClientSignal path (ReturnErrorLiteral m)] s"
| "deliver path (EmitLocationUpdated old new) s =
     emit [ClientSignal path (EmitLocationUpdated old new)] s"

subsection \<open>Shared ownership of clients\<close>

definition referenced :: "nat \<Rightarrow> GeoClue2Manager \<Rightarrow> bool" where
  "referenced a s =
     (a \<in> set (map snd (m_clients_by_peer s)) \<or> a \<in> set (map snd (m_clients_by_path s)))"

text \<open>The last \<open>shared_ptr\<close> goes away: the destructor runs and the object leaves the heap.\<close>

definition destroy_client :: "nat \<Rightarrow> GeoClue2Manager \<Rightarrow> GeoClue2Manager" where
  "destroy_client a s =
     (case map_of (objects s) a of
        None \<Rightarrow> s
      | Some c \<Rightarrow>
          fold (deliver (m_object_path c)) (snd (GeoClue2Client_destructor c))
            (s\<lparr>objects := AList.delete a (objects s)\<rparr>))"

text \<open>A \<open>shared_ptr\<close> to \<open>a\<close> was dropped: the object dies unless a registry still holds it.\<close>

definition release :: "nat \<Rightarrow> GeoClue2Manager \<Rightarrow> GeoClue2Manager" where
  "release a s = (if referenced a s then s else destroy_client a s)"

subsection \<open>Creating and removing clients\<close>

definition create_client_for_peer ::
  "string \<Rightarrow> bool \<Rightarrow> bool \<Rightarrow> GeoClue2Manager \<Rightarrow> nat \<times> GeoClue2Manager"
where
  "create_client_for_peer peer reuse export_ok s =
     (case (if reuse then map_of (m_clients_by_peer s) peer else None) of
        Some a \<Rightarrow> (a, s)
      | None \<Rightarrow>
          let s0 = s\<lparr>m_next_client_id := m_next_client_id s + 1\<rparr>;
              client_path = client_path_of (m_next_client_id s0);
              a = next_address s0;
              client = set_active_changed_callback (GeoClue2Client_new client_path export_ok);
              s1 = s0\<lparr>objects := objects s0 @ [(a, client)], next_address := Suc a\<rparr>;
              old_by_peer = map_of (m_clients_by_peer s1) peer;
              s2 = s1\<lparr>m_clients_by_peer := AList.update peer a (m_clients_by_peer s1)\<rparr>;
              s3 = (case old_by_peer of Some old \<Rightarrow> release old s2 | None \<Rightarrow> s2);
              old_by_path = map_of (m_clients_by_path s3) client_path;
              s4 = s3\<lparr>m_clients_by_path := AList.update client_path a (m_clients_by_path s3)\<rparr>;
              s5 = (case old_by_path of Some old \<Rightarrow> release old s4 | None \<Rightarrow> s4)
          in (a, emit [BusWatchName peer] s5))"

text \<open>The loop of \<open>remove_client\<close> over the peer registry: erase the first entry that holds the client.\<close>

fun erase_first_value :: "nat \<Rightarrow> (string \<times> nat) list \<Rightarrow> (string \<times> nat) list" where
  "erase_first_value a [] = []"
| "erase_first_value a ((k, v) # xs) = (if v = a then xs else (k, v) # erase_first_value a xs)"

definition remove_client :: "string \<Rightarrow> GeoClue2Manager \<Rightarrow> GeoClue2Manager" where
  "remove_client client_path s =
     (case map_of (m_clients_by_path s) client_path of
        None \<Rightarrow> s
      | Some client \<Rightarrow>
          let s1 = s\<lparr>m_clients_by_path := AList.delete client_path (m_clients_by_path s)\<rparr>;
              s2 = s1\<lparr>m_clients_by_peer := erase_first_value client (m_clients_by_peer s1)\<rparr>;
              s3 = update_in_use_property s2
          in release client s3)"

text \<open>
  The result of a manager method: the object path sent back, or a bus error.  The
  handlers are connected with the manager itself as \<open>user_data\<close>, so they are given
  as functions of the manager; \<open>complete_with_path\<close> is \<open>client->get_path()\<close> on the
  pointer \<open>create_client_for_peer\<close> returned, with the handler's \<open>if (!client)\<close>
  branch for a pointer to no live object.
\<close>

datatype method_result = Complete string | ReturnError string

definition complete_with_path :: "nat \<Rightarrow> GeoClue2Manager \<Rightarrow> method_result" where
  "complete_with_path a s =
     (case map_of (objects s) a of
        None \<Rightarrow> ReturnError ''Failed to create client''
      | Some c \<Rightarrow> Complete (m_object_path c))"

definition on_handle_get_client ::
  "string \<Rightarrow> bool \<Rightarrow> GeoClue2Manager \<Rightarrow> method_result \<times> GeoClue2Manager"
where
  "on_handle_get_client peer export_ok manager =
     (let (client, s) = create_client_for_peer peer True export_ok manager
      in (complete_with_path client s, s))"

definition on_handle_create_client ::
  "string \<Rightarrow> bool \<Rightarrow> GeoClue2Manager \<Rightarrow> method_result \<times> GeoClue2Manager"
where
  "on_handle_create_client peer export_ok manager =
     (let (client, s) = create_client_for_peer peer False export_ok manager
      in (complete_with_path client s, s))"

definition on_handle_delete_client :: "string \<Rightarrow> GeoClue2Manager \<Rightarrow> GeoClue2Manager" where
  "on_handle_delete_client client_path manager = remove_client client_path manager"

definition on_handle_add_agent :: "string \<Rightarrow> GeoClue2Manager \<Rightarrow> GeoClue2Manager" where
  "on_handle_add_agent agent_id manager = manager"

text \<open>
  \<open>on_peer_vanished\<close>: first collect the paths of the clients registered under the
  name, then remove each.
\<close>

definition paths_to_remove :: "string \<Rightarrow> GeoClue2Manager \<Rightarrow> string list" where
  "paths_to_remove name s =
     concat (map (\<lambda>(k, a). if k = name
                             then (case map_of (objects s) a of
                                     Some c \<Rightarrow> [m_object_path c] | None \<Rightarrow> [])
                             else [])
               (m_clients_by_peer s))"

definition on_peer_vanished :: "string \<Rightarrow> GeoClue2Manager \<Rightarrow> GeoClue2Manager" where
  "on_peer_vanished name manager = fold remove_client (paths_to_remove name manager) manager"

subsection \<open>Position updates\<close>

text \<open>The clean-up loop at the end of \<open>handle_position_update\<close>.\<close>

function trim_locations :: "GeoClue2Location list \<Rightarrow> GeoClue2Location list" where
  "trim_locations ls =
     (if length ls > MAX_STORED_LOCATIONS then trim_locations (tl ls) else ls)"
  by pat_completeness auto
termination
  by (relation "measure length") auto

declare trim_locations.simps [simp del]

definition notify_client :: "string \<Rightarrow> string \<times> nat \<Rightarrow> GeoClue2Manager \<Rightarrow> GeoClue2Manager" where
  "notify_client location_path pair s =
     (case map_of (objects s) (snd pair) of
        None \<Rightarrow> s
      | Some client \<Rightarrow>
          if m_active client
          then (let (c, sigs) = notify_location_update location_path client
                in fold (deliver (m_object_path client)) sigs
                     (s\<lparr>objects := AList.update (snd pair) c (objects s)\<rparr>))
          else s)"

text \<open>
  \<open>handle_position_update\<close>.  Its loop runs over \<open>m_clients_by_path\<close>, an
  \<open>unordered_map\<close>, in an order the container chooses; here the entries are visited in
  the order of the association list, which fixes an order for the \<open>LocationUpdated\<close>
  signals of one update that the code leaves open.
\<close>

definition handle_position_update :: "GeoClue1Position \<Rightarrow> GeoClue2Manager \<Rightarrow> GeoClue2Manager" where
  "handle_position_update pos s =
     (let s0 = s\<lparr>m_next_location_id := m_next_location_id s + 1\<rparr>;
          location_path = location_path_of (m_next_location_id s0);
          location = set_from_geoclue1_position pos (GeoClue2Location_new location_path);
          s1 = s0\<lparr>m_locations := m_locations s0 @ [location]\<rparr>;
          s2 = fold (notify_client location_path) (m_clients_by_path s1) s1
      in s2\<lparr>m_locations := trim_locations (m_locations s2)\<rparr>)"

subsection \<open>Method calls on exported clients\<close>

text \<open>
  A \<open>Start\<close> or \<open>Stop\<close> call addressed to an object path reaches the live client
  whose skeleton is exported there, if there is one.
\<close>

definition exported_client :: "string \<Rightarrow> GeoClue2Manager \<Rightarrow> (nat \<times> GeoClue2Client) option" where
  "exported_client path s =
     find (\<lambda>(a, c). m_object_path c = path \<and> client_skeleton c \<noteq> None) (objects s)"

definition client_method ::
  "(GeoClue2Client option \<Rightarrow> GeoClue2Client option \<times> client_signal list) \<Rightarrow> string
     \<Rightarrow> GeoClue2Manager \<Rightarrow> GeoClue2Manager"
where
  "client_method handler path s =
     (case exported_client path s of
        None \<Rightarrow> s
      | Some (a, c) \<Rightarrow>
          (case handler (Some c) of
             (Some c', sigs) \<Rightarrow>
               fold (deliver path) sigs (s\<lparr>objects := AList.update a c' (objects s)\<rparr>)
           | (None, sigs) \<Rightarrow> fold (deliver path) sigs s))"

subsection \<open>The event loop\<close>

text \<open>
  Everything that re-enters the manager: the four manager methods (with the outcome of
  the new client's export, where one is made), a watched peer vanishing, a position
  record from the backend, \<open>Start\<close> and \<open>Stop\<close> on a client path, and the grace
  timer firing (only while it is pending).
\<close>

datatype event =
    GetClient string bool
  | CreateClient string bool
  | DeleteClient string
  | AddAgent string
  | PeerVanished string
  | PositionUpdate GeoClue1Position
  | ClientStart string
  | ClientStop string
  | GraceTimeout

fun step :: "event \<Rightarrow> GeoClue2Manager \<Rightarrow> GeoClue2Manager" where
  "step (GetClient peer export_ok) s = snd (on_handle_get_client peer export_ok s)"
| "step (CreateClient peer export_ok) s = snd (on_handle_create_client peer export_ok s)"
| "step (DeleteClient path) s = on_handle_delete_client path s"
| "step (AddAgent agent_id) s = on_handle_add_agent agent_id s"
| "step (PeerVanished name) s = on_peer_vanished name s"
| "step (PositionUpdate pos) s = handle_position_update pos s"
| "step (ClientStart path) s = client_method on_handle_start path s"
| "step (ClientStop path) s = client_method on_handle_stop path s"
| "step GraceTimeout s = (if m_grace_timeout_id s \<noteq> 0 then on_grace_timeout s else s)"

definition run :: "GeoClue2Manager \<Rightarrow> event list \<Rightarrow> GeoClue2Manager" where
  "run s evs = fold step evs s"

section \<open>Start-up (main.cpp)\<close>

record CommandLineOptions =
  debug :: bool
  grace_timeout_ms :: gint

text \<open>
  \<open>parse_command_line\<close> fills the structure through GLib's option parser: the defaults,
  overwritten by the value of \<open>--debug\<close> and of \<open>--grace-timeout\<close> where given.
\<close>

definition parse_command_line :: "bool \<Rightarrow> gint option \<Rightarrow> CommandLineOptions" where
  "parse_command_line debug_given grace_timeout_given =
     \<lparr> debug = debug_given,
       grace_timeout_ms = (case grace_timeout_given of Some v \<Rightarrow> v | None \<Rightarrow> 15000) \<rparr>"

definition geoclue2_manager_register :: "bool \<Rightarrow> bool \<Rightarrow> GeoClue2Manager option" where
  "geoclue2_manager_register connection export_ok =
     (if \<not> connection then None else Some (GeoClue2Manager_new export_ok))"

text \<open>
  \<open>main\<close> up to the point where the main loop runs: the manager as the loop finds it, or
  \<open>None\<close> for \<open>EXIT_FAILURE\<close>.  The parsed options are passed to \<open>log_init\<close> only.
\<close>

definition main_startup :: "CommandLineOptions \<Rightarrow> bool \<Rightarrow> GeoClue2Manager option" where
  "main_startup options export_ok =
     (case geoclue2_manager_register True export_ok of
        None \<Rightarrow> None
      | Some manager \<Rightarrow> Some (set_backend True manager))"

definition initial_manager :: GeoClue2Manager where
  "initial_manager = set_backend True (GeoClue2Manager_new True)"

section \<open>Notions used to state the properties\<close>

subsection \<open>Backend\<close>

text \<open>The calls that change the provider's reference count.\<close>

fun is_reference_call :: "bus_call \<Rightarrow> bool" where
  "is_reference_call (ProxyCallSync p m args) = (m = ''AddReference'' \<or> m = ''RemoveReference'')"
| "is_reference_call (ProxyNewSync n p i) = False"
| "is_reference_call (SignalSubscribe s i m p) = False"
| "is_reference_call (SignalUnsubscribe n) = False"
| "is_reference_call (ObjectUnref p) = False"

text \<open>A bus on which everything succeeds, and one on which the MasterClient proxy cannot be made.\<close>

definition bus_all_ok :: bus_env where
  "bus_all_ok =
     \<lparr> proxy_new_ok = (\<lambda>n p i. True), call_ok = (\<lambda>p m. True),
       create_path = ''/org/freedesktop/Geoclue/Master/client0'', subscribe_id = (\<lambda>m. 1) \<rparr>"

definition bus_no_client_proxy :: bus_env where
  "bus_no_client_proxy =
     \<lparr> proxy_new_ok = (\<lambda>n p i. i \<noteq> MasterClient_iface), call_ok = (\<lambda>p m. True),
       create_path = ''/org/freedesktop/Geoclue/Master/client0'', subscribe_id = (\<lambda>m. 1) \<rparr>"

text \<open>The events of scenario S2: one velocity signal, then position signals.\<close>

definition velocity_S2 :: velocity_payload where
  "velocity_S2 =
     \<lparr> v_fields = 0, v_timestamp = 1700000001, v_speed = Finite (5 / 2),
       v_direction = Finite 90, v_climb = Finite 0 \<rparr>"

definition position_S1 :: position_payload where
  "position_S1 =
     \<lparr> p_fields = 0, p_timestamp = 1700000000, p_latitude = Finite (297 / 5),
       p_longitude = Finite (247 / 10), p_altitude = Finite 30, p_accuracy_level = 0,
       p_accuracy_h = Finite 5, p_accuracy_v = Finite 5 \<rparr>"

definition backend_ready :: Geoclue1Backend where
  "backend_ready = set_position_callback (Geoclue1Backend_new True)"

definition backend_with_provider :: Geoclue1Backend where
  "backend_with_provider =
     backend_ready\<lparr>m_provider_proxy := Some (GDBusProxy ''org.x'' ''/p'' Geoclue_iface)\<rparr>"

subsection \<open>Client\<close>

definition client_1 :: GeoClue2Client where
  "client_1 =
     set_active_changed_callback (GeoClue2Client_new ''/org/freedesktop/GeoClue2/Client/1'' True)"

definition activated :: "bool \<Rightarrow> GeoClue2Client \<Rightarrow> GeoClue2Client" where
  "activated a c =
     c\<lparr> m_active := a,
        client_skeleton := map_option (\<lambda>sk. sk\<lparr>sk_active := a\<rparr>) (client_skeleton c) \<rparr>"

subsection \<open>Manager\<close>

text \<open>The number of live client objects whose \<open>Active\<close> flag is set.\<close>

definition active_count :: "GeoClue2Manager \<Rightarrow> nat" where
  "active_count s = length (filter (\<lambda>(a, c). m_active c) (objects s))"

fun is_position_update :: "event \<Rightarrow> bool" where
  "is_position_update (PositionUpdate pos) = True"
| "is_position_update (GetClient peer export_ok) = False"
| "is_position_update (CreateClient peer export_ok) = False"
| "is_position_update (DeleteClient path) = False"
| "is_position_update (AddAgent agent_id) = False"
| "is_position_update (PeerVanished name) = False"
| "is_position_update (ClientStart path) = False"
| "is_position_update (ClientStop path) = False"
| "is_position_update GraceTimeout = False"

text \<open>Reading the decimal number at the end of an object path.\<close>

definition digit_value :: "char \<Rightarrow> nat" where
  "digit_value c = of_char c - 48"

definition from_digits :: "string \<Rightarrow> nat" where
  "from_digits ds = foldl (\<lambda>n c. 10 * n + digit_value c) 0 ds"

definition location_id :: "GeoClue2Location \<Rightarrow> nat" where
  "location_id l = from_digits (drop (length Location_prefix) (loc_object_path l))"

text \<open>Back-to-back \<open>GetClient\<close> and \<open>CreateClient\<close> calls of one peer, with the answers in order.\<close>

fun get_client_calls ::
  "string \<Rightarrow> bool list \<Rightarrow> GeoClue2Manager \<Rightarrow> method_result list \<times> GeoClue2Manager"
where
  "get_client_calls peer [] s = ([], s)"
| "get_client_calls peer (e # es) s =
     (let (r, s1) = on_handle_get_client peer e s;
          (rs, s2) = get_client_calls peer es s1
      in (r # rs, s2))"

fun create_client_calls ::
  "string \<Rightarrow> bool list \<Rightarrow> GeoClue2Manager \<Rightarrow> method_result list \<times> GeoClue2Manager"
where
  "create_client_calls peer [] s = ([], s)"
| "create_client_calls peer (e # es) s =
     (let (r, s1) = on_handle_create_client peer e s;
          (rs, s2) = create_client_calls peer es s1
      in (r # rs, s2))"

text \<open>
  The clients of a peer.  A client object is made in one place, \<open>create_client_for_peer\<close>,
  which the handlers of \<open>GetClient\<close> and \<open>CreateClient\<close> call with the sender of the
  call.  The object itself does not record the peer (its constructor is given the
  connection, the object path and the manager), so the peer of an object is read off
  the calls: an object allocated while a call of a peer is handled is a client of that
  peer.  \<open>owners s evs\<close> lists the addresses allocated while \<open>evs\<close> are handled from
  state \<open>s\<close>, each with its peer; \<open>clients_made_for peer evs\<close> are the objects alive
  after \<open>evs\<close> that were made for \<open>peer\<close>.
\<close>

fun calling_peer :: "event \<Rightarrow> string option" where
  "calling_peer (GetClient peer export_ok) = Some peer"
| "calling_peer (CreateClient peer export_ok) = Some peer"
| "calling_peer (DeleteClient path) = None"
| "calling_peer (AddAgent agent_id) = None"
| "calling_peer (PeerVanished name) = None"
| "calling_peer (PositionUpdate pos) = None"
| "calling_peer (ClientStart path) = None"
| "calling_peer (ClientStop path) = None"
| "calling_peer GraceTimeout = None"

definition made_by :: "event \<Rightarrow> GeoClue2Manager \<Rightarrow> (nat \<times> string) list" where
  "made_by e s =
     (case calling_peer e of
        Some peer \<Rightarrow> map (\<lambda>a. (a, peer)) [next_address s..<next_address (step e s)]
      | None \<Rightarrow> [])"

fun owners :: "GeoClue2Manager \<Rightarrow> event list \<Rightarrow> (nat \<times> string) list" where
  "owners s [] = []"
| "owners s (e # evs) = made_by e s @ owners (step e s) evs"

definition clients_made_for :: "string \<Rightarrow> event list \<Rightarrow> (nat \<times> GeoClue2Client) list" where
  "clients_made_for peer evs =
     filter (\<lambda>(a, c). (a, peer) \<in> set (owners initial_manager evs))
       (objects (run initial_manager evs))"

text \<open>
  The parts of the manager that the accounting does not touch (\<open>registry_part\<close>), that
  the death of a client does not touch (\<open>maps_part\<close>), and that only a position update
  or the start-up touches (\<open>location_part\<close>).
\<close>

definition location_part ::
  "GeoClue2Manager \<Rightarrow> guint \<times> GeoClue2Location list \<times> guint \<times> bool"
where
  "location_part s = (m_next_location_id s, m_locations s, m_grace_timeout_ms s, m_backend s)"

definition maps_part ::
  "GeoClue2Manager \<Rightarrow> nat \<times> (string \<times> nat) list \<times> (string \<times> nat) list \<times> guint"
where
  "maps_part s = (next_address s, m_clients_by_peer s, m_clients_by_path s, m_next_client_id s)"

definition registry_part ::
  "GeoClue2Manager \<Rightarrow> (nat \<times> GeoClue2Client) list
     \<times> (nat \<times> (string \<times> nat) list \<times> (string \<times> nat) list \<times> guint)
     \<times> (guint \<times> GeoClue2Location list \<times> guint \<times> bool)"
where
  "registry_part s = (objects s, maps_part s, location_part s)"

text \<open>The location object \<open>handle_position_update\<close> makes for a position record.\<close>

definition new_location :: "GeoClue1Position \<Rightarrow> GeoClue2Manager \<Rightarrow> GeoClue2Location" where
  "new_location pos s =
     set_from_geoclue1_position pos
       (GeoClue2Location_new (location_path_of (m_next_location_id s + 1)))"

text \<open>The position record of scenario S1, and very many position updates in a row.\<close>

definition position_record_S1 :: GeoClue1Position where
  "position_record_S1 =
     \<lparr> latitude = Finite (297 / 5), longitude = Finite (247 / 10), altitude = Finite 30,
       accuracy = Finite 5, speed = Finite (- 1), heading = Finite (- 1), climb = Finite (- 1),
       timestamp_iso8601 = ''1700000000'' \<rparr>"

definition position_updates :: "nat \<Rightarrow> event list" where
  "position_updates n = replicate n (PositionUpdate position_record_S1)"

text \<open>
  The shape of the client heap in every state the manager reaches: addresses are
  distinct and below \<open>next_address\<close>, every address a registry holds is that of a live
  object, and every live object has the manager's active-changed callback.
\<close>

definition heap_ok :: "GeoClue2Manager \<Rightarrow> bool" where
  "heap_ok s =
     (distinct (map fst (objects s))
      \<and> (\<forall>a \<in> set (map fst (objects s)). a < next_address s)
      \<and> (\<forall>a \<in> set (map snd (m_clients_by_peer s)) \<union> set (map snd (m_clients_by_path s)).
            a \<in> set (map fst (objects s)))
      \<and> (\<forall>c \<in> set (map snd (objects s)). m_active_changed_callback c))"

text \<open>The exported \<open>InUse\<close> property agrees with the counter.\<close>

definition in_use_ok :: "GeoClue2Manager \<Rightarrow> bool" where
  "in_use_ok s =
     (case manager_skeleton s of
        Some sk \<Rightarrow> in_use sk = (m_active_clients s > 0)
      | None \<Rightarrow> False)"

text \<open>The counter agrees with the number of active clients.\<close>

definition count_ok :: "GeoClue2Manager \<Rightarrow> bool" where
  "count_ok s = (unat (m_active_clients s) = active_count s)"

text \<open>The path registry holds a live client with this object path under this path.\<close>

definition registered_client :: "string \<Rightarrow> GeoClue2Manager \<Rightarrow> bool" where
  "registered_client path s =
     (case map_of (m_clients_by_path s) path of
        None \<Rightarrow> False
      | Some a \<Rightarrow>
          (case map_of (objects s) a of
             None \<Rightarrow> False
           | Some c \<Rightarrow> m_object_path c = path))"

text \<open>The peer registry holds a live client with this object path under this peer name.\<close>

definition client_of_peer :: "string \<Rightarrow> string \<Rightarrow> GeoClue2Manager \<Rightarrow> bool" where
  "client_of_peer peer path s =
     (case map_of (m_clients_by_peer s) peer of
        None \<Rightarrow> False
      | Some a \<Rightarrow>
          (case map_of (objects s) a of
             None \<Rightarrow> False
           | Some c \<Rightarrow> m_object_path c = path))"

text \<open>
  The three stages of \<open>create_client_for_peer\<close> when it makes a client: the object is
  allocated, stored in the peer registry (the \<open>shared_ptr\<close> it replaces is dropped), and
  stored in the path registry (likewise).
\<close>

definition alloc_client :: "string \<Rightarrow> bool \<Rightarrow> GeoClue2Manager \<Rightarrow> GeoClue2Manager" where
  "alloc_client path export_ok s =
     s\<lparr> m_next_client_id := m_next_client_id s + 1,
        objects := objects s
          @ [(next_address s, set_active_changed_callback (GeoClue2Client_new path export_ok))],
        next_address := Suc (next_address s) \<rparr>"

definition store_by_peer :: "string \<Rightarrow> nat \<Rightarrow> GeoClue2Manager \<Rightarrow> GeoClue2Manager" where
  "store_by_peer peer a s =
     (case map_of (m_clients_by_peer s) peer of
        Some old \<Rightarrow> release old (s\<lparr>m_clients_by_peer := AList.update peer a (m_clients_by_peer s)\<rparr>)
      | None \<Rightarrow> s\<lparr>m_clients_by_peer := AList.update peer a (m_clients_by_peer s)\<rparr>)"

definition store_by_path :: "string \<Rightarrow> nat \<Rightarrow> GeoClue2Manager \<Rightarrow> GeoClue2Manager" where
  "store_by_path path a s =
     (case map_of (m_clients_by_path s) path of
        Some old \<Rightarrow> release old (s\<lparr>m_clients_by_path := AList.update path a (m_clients_by_path s)\<rparr>)
      | None \<Rightarrow> s\<lparr>m_clients_by_path := AList.update path a (m_clients_by_path s)\<rparr>)"

text \<open>
  One peer that creates a client and starts it, again and again: round \<open>k\<close> starts the
  client the manager names with the counter value \<open>k + 1\<close>.
\<close>

definition create_and_start :: "nat \<Rightarrow> event list" where
  "create_and_start k =
     [CreateClient '':1.7'' True, ClientStart (client_path_of (of_nat (Suc k)))]"

definition busy_peer :: "nat \<Rightarrow> event list" where
  "busy_peer n = concat (map create_and_start [0..<n])"

text \<open>The state after \<open>n\<close> such rounds: \<open>n\<close> clients, all active, the counters at \<open>n\<close> modulo \<open>2 ^ 32\<close>.\<close>

definition all_started :: "nat \<Rightarrow> GeoClue2Manager \<Rightarrow> bool" where
  "all_started n s =
     (m_active_clients s = of_nat n
      \<and> m_next_client_id s = of_nat n
      \<and> active_count s = n
      \<and> (\<forall>c \<in> set (map snd (objects s)).
            \<exists>k<n. m_object_path c = client_path_of (of_nat (Suc k)))
      \<and> (\<forall>key \<in> set (map fst (m_clients_by_path s)).
            \<exists>k<n. key = client_path_of (of_nat (Suc k)))
      \<and> set (map snd (m_clients_by_peer s)) \<subseteq> set (map snd (m_clients_by_path s)))"

section \<open>Properties of the backend\<close>

lemma velocity_cached_once:
  "snd (on_position_changed p2
         (fst (on_position_changed p1 (fst (on_velocity_changed v (Some b))))))
     = (if m_position_callback b
        then [\<lparr> latitude = p_latitude p2, longitude = p_longitude p2, altitude = p_altitude p2,
                accuracy = p_accuracy_h p2, speed = Finite (- 1), heading = Finite (- 1),
                climb = Finite (- 1), timestamp_iso8601 = to_string_int (p_timestamp p2) \<rparr>]
        else [])"
  by (simp add: on_position_changed_def on_velocity_changed_def Let_def bool_of_int_def
      int_of_bool_def VELOCITY_FRESH_STEPS_def)

text \<open>
  Claim C1.  The claim says that a velocity event sets the freshness counter to 2, so that
  the next two position records carry the cached speed, heading and climb and the third
  carries -1.0.  In the code the counter is a \<open>bool\<close>: assigning 2 stores \<open>true\<close>, and
  the first position record takes it back to \<open>false\<close>.  After the velocity signal of
  scenario S2 the first position record carries speed 2.5, heading 90 and climb 0, and
  the second one already carries -1.0 in all three motion fields.
\<close>

theorem velocity_fresh_for_one_position_only:
  "map speed (snd (on_position_changed position_S1
                    (fst (on_velocity_changed velocity_S2 (Some backend_ready))))) = [Finite (5 / 2)]
   \<and> map heading (snd (on_position_changed position_S1
                    (fst (on_velocity_changed velocity_S2 (Some backend_ready))))) = [Finite 90]
   \<and> map climb (snd (on_position_changed position_S1
                    (fst (on_velocity_changed velocity_S2 (Some backend_ready))))) = [Finite 0]
   \<and> map speed (snd (on_position_changed position_S1
                    (fst (on_position_changed position_S1
                      (fst (on_velocity_changed velocity_S2 (Some backend_ready))))))) = [Finite (- 1)]
   \<and> map heading (snd (on_position_changed position_S1
                    (fst (on_position_changed position_S1
                      (fst (on_velocity_changed velocity_S2 (Some backend_ready))))))) = [Finite (- 1)]
   \<and> map climb (snd (on_position_changed position_S1
                    (fst (on_position_changed position_S1
                      (fst (on_velocity_changed velocity_S2 (Some backend_ready))))))) = [Finite (- 1)]"
  by (simp add: on_position_changed_def on_velocity_changed_def Let_def bool_of_int_def
      int_of_bool_def VELOCITY_FRESH_STEPS_def backend_ready_def set_position_callback_def
      Geoclue1Backend_new_def velocity_S2_def position_S1_def isnan_def)

text \<open>
  Claim C10.  For every \<open>PositionChanged\<close> payload, the record handed to the position
  callback has the payload's latitude, longitude, altitude and horizontal accuracy, and
  neither the record nor the backend depends on the fields bitmask: replacing the
  bitmask by any other value gives the same result.
\<close>

theorem position_fields_copied_regardless_of_bitmask:
  "m_position_callback b \<Longrightarrow>
     (\<exists>pos. snd (on_position_changed p (Some b)) = [pos]
        \<and> latitude pos = p_latitude p \<and> longitude pos = p_longitude p
        \<and> altitude pos = p_altitude p \<and> accuracy pos = p_accuracy_h p)
     \<and> on_position_changed (p\<lparr>p_fields := f\<rparr>) (Some b) = on_position_changed p (Some b)"
  by (simp add: on_position_changed_def Let_def)

theorem position_fields_copied_witness:
  "m_position_callback backend_ready
   \<and> map latitude (snd (on_position_changed position_S1 (Some backend_ready))) = [Finite (297 / 5)]
   \<and> map accuracy (snd (on_position_changed position_S1 (Some backend_ready))) = [Finite 5]
   \<and> on_position_changed (position_S1\<lparr>p_fields := 7\<rparr>) (Some backend_ready)
       = on_position_changed position_S1 (Some backend_ready)"
  using position_fields_copied_regardless_of_bitmask [of backend_ready position_S1 7]
  by (auto simp add: backend_ready_def set_position_callback_def Geoclue1Backend_new_def
      position_S1_def)

lemma start_tracking_idempotent: "m_tracking b \<Longrightarrow> start_tracking env b = (b, [])"
  by (simp add: start_tracking_def)

lemma destroy_master_client_fields:
  "m_position_proxy (fst (destroy_master_client env b)) = None"
  "m_provider_proxy (fst (destroy_master_client env b)) = None"
  "m_client_proxy (fst (destroy_master_client env b)) = None"
  "m_master_proxy (fst (destroy_master_client env b)) = None"
  "m_tracking (fst (destroy_master_client env b)) = False"
  by (simp_all add: destroy_master_client_def Let_def split: option.splits prod.splits)

lemma destroy_master_client_nothing_left:
  "m_position_proxy b = None \<Longrightarrow> m_provider_proxy b = None \<Longrightarrow> m_client_proxy b = None \<Longrightarrow>
   m_master_proxy b = None \<Longrightarrow> \<not> m_tracking b \<Longrightarrow> destroy_master_client env b = (b, [])"
  by (simp add: destroy_master_client_def Let_def)

lemma stop_tracking_fields:
  "m_position_proxy (fst (stop_tracking env b)) = None"
  "m_provider_proxy (fst (stop_tracking env b)) = None"
  "m_client_proxy (fst (stop_tracking env b)) = None"
  "m_master_proxy (fst (stop_tracking env b)) = None"
  "m_tracking (fst (stop_tracking env b)) = False"
  by (simp_all add: stop_tracking_def Let_def case_prod_beta destroy_master_client_fields)

lemma stop_tracking_idempotent:
  "stop_tracking env2 (fst (stop_tracking env1 b)) = (fst (stop_tracking env1 b), [])"
proof -
  let ?b = "fst (stop_tracking env1 b)"
  have "destroy_master_client env2 ?b = (?b, [])"
    by (rule destroy_master_client_nothing_left) (simp_all add: stop_tracking_fields)
  then show ?thesis
    by (simp add: stop_tracking_def [of env2] stop_tracking_fields)
qed

lemma stop_start_stop_when_start_succeeds:
  "fst (stop_tracking bus_all_ok (fst (start_tracking bus_all_ok
          (fst (stop_tracking bus_all_ok (Geoclue1Backend_new True))))))
     = Geoclue1Backend_new True"
  by (simp add: stop_tracking_def start_tracking_def ensure_master_client_def
      destroy_master_client_def unsubscribe_signals_def Geoclue1Backend_new_def bus_all_ok_def
      Let_def)

text \<open>
  Claim C4.  The claim says that start is idempotent, stop is idempotent, and that stop,
  start, stop on a fresh backend gives back the state of a fresh backend.  The two
  idempotence parts hold (\<open>start_tracking_idempotent\<close>, \<open>stop_tracking_idempotent\<close>),
  and so does the third when the start succeeds.  When the start fails after the
  subscription to \<open>PositionProviderChanged\<close> (here: the MasterClient proxy cannot be
  made), \<open>m_tracking\<close> stays false, the following stop skips \<open>unsubscribe_signals\<close>,
  and the backend keeps the subscription id: it is not in the state of a fresh instance.
\<close>

theorem failed_start_leaves_provider_subscription:
  "fst (stop_tracking bus_no_client_proxy (fst (start_tracking bus_no_client_proxy
          (fst (stop_tracking bus_no_client_proxy (Geoclue1Backend_new True))))))
     = (Geoclue1Backend_new True)\<lparr>m_position_provider_subscription_id := 1\<rparr>
   \<and> fst (stop_tracking bus_no_client_proxy (fst (start_tracking bus_no_client_proxy
          (fst (stop_tracking bus_no_client_proxy (Geoclue1Backend_new True))))))
     \<noteq> Geoclue1Backend_new True"
  by (simp add: stop_tracking_def start_tracking_def ensure_master_client_def
      destroy_master_client_def unsubscribe_signals_def Geoclue1Backend_new_def
      bus_no_client_proxy_def Let_def MasterClient_iface_def Master_name_def Master_path_def
      Geoclue_iface_def)

text \<open>
  Claim C8.  When \<open>PositionProviderChanged\<close> arrives with a non-empty service and path
  while a provider proxy exists, the reference-count calls of the handler are
  \<open>RemoveReference\<close> on the outgoing provider first and then, if the proxy for the
  incoming provider could be made, \<open>AddReference\<close> on the incoming one.  With an empty
  service or an empty path the handler changes nothing and makes no bus call.
\<close>

theorem provider_swap_removes_reference_first:
  "(service \<noteq> [] \<and> path \<noteq> [] \<and> m_provider_proxy b = Some old \<longrightarrow>
      filter is_reference_call
        (snd (on_position_provider_changed env (name, description, service, path) (Some b)))
        = ProxyCallSync old ''RemoveReference'' []
          # (if proxy_new_ok env service path Geoclue_iface
             then [ProxyCallSync (GDBusProxy service path Geoclue_iface) ''AddReference'' []]
             else []))
   \<and> (service = [] \<or> path = [] \<longrightarrow>
        on_position_provider_changed env (name, description, service, path) (Some b)
          = (Some b, []))"
  by (auto simp add: on_position_provider_changed_def Let_def split: option.splits)

theorem provider_swap_witness:
  "m_provider_proxy backend_with_provider = Some (GDBusProxy ''org.x'' ''/p'' Geoclue_iface)
   \<and> filter is_reference_call
        (snd (on_position_provider_changed bus_all_ok (''gps'', ''desc'', ''org.y'', ''/q'')
               (Some backend_with_provider)))
        = [ProxyCallSync (GDBusProxy ''org.x'' ''/p'' Geoclue_iface) ''RemoveReference'' [],
           ProxyCallSync (GDBusProxy ''org.y'' ''/q'' Geoclue_iface) ''AddReference'' []]
   \<and> on_position_provider_changed bus_all_ok (''gps'', ''desc'', [], ''/q'')
        (Some backend_with_provider) = (Some backend_with_provider, [])"
  using provider_swap_removes_reference_first
          [of "''org.y''" "''/q''" backend_with_provider
              "GDBusProxy ''org.x'' ''/p'' Geoclue_iface" bus_all_ok "''gps''" "''desc''"]
        provider_swap_removes_reference_first
          [of "[]" "''/q''" backend_with_provider
              "GDBusProxy ''org.x'' ''/p'' Geoclue_iface" bus_all_ok "''gps''" "''desc''"]
  by (simp add: backend_with_provider_def bus_all_ok_def)

section \<open>Properties of the client\<close>

text \<open>
  Claim C9.  \<open>Start\<close> on an active client completes and leaves the client as it is,
  without calling the active-changed callback.  On an inactive client (with the
  manager's callback installed) it sets \<open>Active\<close>, calls the callback once with
  \<open>true\<close> and then completes.  \<open>Stop\<close> does the same with the roles of active and
  inactive exchanged.
\<close>

theorem start_stop_on_client:
  "(m_active c \<longrightarrow> on_handle_start (Some c) = (Some c, [CompleteStart]))
   \<and> (\<not> m_active c \<and> m_active_changed_callback c \<longrightarrow>
        on_handle_start (Some c)
          = (Some (activated True c), [ActiveChangedCallback True, CompleteStart]))
   \<and> (\<not> m_active c \<longrightarrow> on_handle_stop (Some c) = (Some c, [CompleteStop]))
   \<and> (m_active c \<and> m_active_changed_callback c \<longrightarrow>
        on_handle_stop (Some c)
          = (Some (activated False c), [ActiveChangedCallback False, CompleteStop]))"
  by (auto simp add: on_handle_start_def on_handle_stop_def set_active_def activated_def Let_def
      split: option.splits)

theorem start_stop_on_client_witness:
  "\<not> m_active client_1 \<and> m_active_changed_callback client_1
   \<and> on_handle_start (Some client_1)
       = (Some (activated True client_1), [ActiveChangedCallback True, CompleteStart])
   \<and> on_handle_stop (Some client_1) = (Some client_1, [CompleteStop])
   \<and> m_active (activated True client_1) \<and> m_active_changed_callback (activated True client_1)
   \<and> on_handle_start (Some (activated True client_1))
       = (Some (activated True client_1), [CompleteStart])
   \<and> on_handle_stop (Some (activated True client_1))
       = (Some (activated False (activated True client_1)),
          [ActiveChangedCallback False, CompleteStop])"
  using start_stop_on_client [of client_1] start_stop_on_client [of "activated True client_1"]
  by (simp add: client_1_def activated_def set_active_changed_callback_def GeoClue2Client_new_def)

section \<open>Properties of the manager\<close>

subsection \<open>What each operation leaves alone\<close>


lemma registry_partD:
  "registry_part s' = registry_part s \<Longrightarrow>
     objects s' = objects s \<and> maps_part s' = maps_part s \<and> location_part s' = location_part s"
  by (simp add: registry_part_def)

lemma maps_partD:
  "maps_part s' = maps_part s \<Longrightarrow>
     next_address s' = next_address s \<and> m_clients_by_peer s' = m_clients_by_peer s
     \<and> m_clients_by_path s' = m_clients_by_path s \<and> m_next_client_id s' = m_next_client_id s"
  by (simp add: maps_part_def)

lemma location_partD:
  "location_part s' = location_part s \<Longrightarrow>
     m_next_location_id s' = m_next_location_id s \<and> m_locations s' = m_locations s
     \<and> m_grace_timeout_ms s' = m_grace_timeout_ms s \<and> m_backend s' = m_backend s"
  by (simp add: location_part_def)

lemmas part_defs = registry_part_def maps_part_def location_part_def

lemma registry_part_emit [simp]: "registry_part (emit es s) = registry_part s"
  by (simp add: part_defs emit_def)

lemma registry_part_update_in_use [simp]:
  "registry_part (update_in_use_property s) = registry_part s"
  by (simp add: part_defs update_in_use_property_def split: option.splits)

lemma registry_part_remove_grace_timeout [simp]:
  "registry_part (remove_grace_timeout s) = registry_part s"
  by (simp add: part_defs remove_grace_timeout_def emit_def)

lemma registry_part_client_became_active [simp]:
  "registry_part (client_became_active s) = registry_part s"
proof -
  have "registry_part (s\<lparr>m_active_clients := n\<rparr>) = registry_part s" for s n
    by (simp add: part_defs)
  then show ?thesis
    by (simp add: client_became_active_def Let_def)
qed

lemma registry_part_client_became_inactive [simp]:
  "registry_part (client_became_inactive s) = registry_part s"
proof -
  have a: "registry_part (s\<lparr>m_active_clients := n\<rparr>) = registry_part s" for s n
    by (simp add: part_defs)
  have b: "registry_part (s\<lparr>m_grace_timeout_id := n\<rparr>) = registry_part s" for s n
    by (simp add: part_defs)
  show ?thesis
    by (simp add: client_became_inactive_def Let_def a b)
qed

lemma registry_part_on_grace_timeout [simp]:
  "registry_part (on_grace_timeout s) = registry_part s"
proof -
  have b: "registry_part (s\<lparr>m_grace_timeout_id := n\<rparr>) = registry_part s" for s n
    by (simp add: part_defs)
  show ?thesis
    by (simp add: on_grace_timeout_def Let_def b)
qed

lemma registry_part_deliver [simp]: "registry_part (deliver p sg s) = registry_part s"
  by (cases sg) simp_all

lemma registry_part_fold_deliver [simp]:
  "registry_part (fold (deliver p) sigs s) = registry_part s"
  by (induction sigs arbitrary: s) simp_all

lemma maps_part_destroy_client [simp]: "maps_part (destroy_client a s) = maps_part s"
proof (cases "map_of (objects s) a")
  case None
  then show ?thesis by (simp add: destroy_client_def)
next
  case (Some c)
  have "maps_part (s\<lparr>objects := xs\<rparr>) = maps_part s" for xs
    by (simp add: maps_part_def)
  with Some registry_partD [OF registry_part_fold_deliver] show ?thesis
    by (simp add: destroy_client_def)
qed

lemma location_part_destroy_client [simp]: "location_part (destroy_client a s) = location_part s"
proof (cases "map_of (objects s) a")
  case None
  then show ?thesis by (simp add: destroy_client_def)
next
  case (Some c)
  have "location_part (s\<lparr>objects := xs\<rparr>) = location_part s" for xs
    by (simp add: location_part_def)
  with Some registry_partD [OF registry_part_fold_deliver] show ?thesis
    by (simp add: destroy_client_def)
qed

lemma maps_part_release [simp]: "maps_part (release a s) = maps_part s"
  by (simp add: release_def)

lemma location_part_release [simp]: "location_part (release a s) = location_part s"
  by (simp add: release_def)

lemma maps_part_notify_client [simp]: "maps_part (notify_client lp pair s) = maps_part s"
proof -
  have "maps_part (s\<lparr>objects := xs\<rparr>) = maps_part s" for xs
    by (simp add: maps_part_def)
  with registry_partD [OF registry_part_fold_deliver] show ?thesis
    by (simp add: notify_client_def case_prod_beta split: option.splits)
qed

lemma location_part_notify_client [simp]:
  "location_part (notify_client lp pair s) = location_part s"
proof -
  have "location_part (s\<lparr>objects := xs\<rparr>) = location_part s" for xs
    by (simp add: location_part_def)
  with registry_partD [OF registry_part_fold_deliver] show ?thesis
    by (simp add: notify_client_def case_prod_beta split: option.splits)
qed

lemma location_part_fold_notify_client [simp]:
  "location_part (fold (notify_client lp) ps s) = location_part s"
  by (induction ps arbitrary: s) simp_all

lemma maps_part_fold_notify_client [simp]:
  "maps_part (fold (notify_client lp) ps s) = maps_part s"
  by (induction ps arbitrary: s) simp_all

lemma maps_part_client_method [simp]: "maps_part (client_method h path s) = maps_part s"
proof -
  have "maps_part (s\<lparr>objects := xs\<rparr>) = maps_part s" for xs
    by (simp add: maps_part_def)
  with registry_partD [OF registry_part_fold_deliver] show ?thesis
    by (simp add: client_method_def split: option.splits prod.splits)
qed

lemma location_part_client_method [simp]:
  "location_part (client_method h path s) = location_part s"
proof -
  have "location_part (s\<lparr>objects := xs\<rparr>) = location_part s" for xs
    by (simp add: location_part_def)
  with registry_partD [OF registry_part_fold_deliver] show ?thesis
    by (simp add: client_method_def split: option.splits prod.splits)
qed

lemma location_part_create_client_for_peer [simp]:
  "location_part (snd (create_client_for_peer peer reuse e s)) = location_part s"
proof -
  have a: "location_part (s\<lparr>m_next_client_id := i\<rparr>) = location_part s"
          "location_part (s\<lparr>objects := xs, next_address := n\<rparr>) = location_part s"
          "location_part (s\<lparr>m_clients_by_peer := ps\<rparr>) = location_part s"
          "location_part (s\<lparr>m_clients_by_path := ps\<rparr>) = location_part s" for s i xs n ps
    by (simp_all add: location_part_def)
  have b: "location_part (emit es s) = location_part s" for es s
    using registry_partD [OF registry_part_emit] by simp
  show ?thesis
    by (simp add: create_client_for_peer_def Let_def a b split: option.splits)
qed

lemma location_part_remove_client [simp]:
  "location_part (remove_client path s) = location_part s"
proof -
  have a: "location_part (s\<lparr>m_clients_by_peer := ps\<rparr>) = location_part s"
          "location_part (s\<lparr>m_clients_by_path := ps\<rparr>) = location_part s" for s ps
    by (simp_all add: location_part_def)
  have b: "location_part (update_in_use_property s) = location_part s" for s
    using registry_partD [OF registry_part_update_in_use] by simp
  show ?thesis
    by (simp add: remove_client_def Let_def a b split: option.splits)
qed

lemma location_part_fold_remove_client [simp]:
  "location_part (fold remove_client ps s) = location_part s"
  by (induction ps arbitrary: s) simp_all

lemma location_part_step:
  "\<not> is_position_update e \<Longrightarrow> location_part (step e s) = location_part s"
proof (cases e)
  case GraceTimeout
  then show ?thesis
    using registry_partD [OF registry_part_on_grace_timeout] by simp
qed (simp_all add: on_handle_get_client_def on_handle_create_client_def case_prod_beta
       on_handle_delete_client_def on_handle_add_agent_def on_peer_vanished_def)

lemma run_snoc: "run s (evs @ [e]) = step e (run s evs)"
  by (simp add: run_def)

lemma run_Nil: "run s [] = s"
  by (simp add: run_def)

lemma run_Cons: "run s (e # evs) = run (step e s) evs"
  by (simp add: run_def)

lemma run_append: "run s (xs @ ys) = run (run s xs) ys"
  by (simp add: run_def)

subsection \<open>Decimal object paths\<close>

lemma digit_value_digit_char: "d < 10 \<Longrightarrow> digit_value (digit_char d) = d"
  by (auto simp add: digit_char_def digit_value_def)

lemma from_digits_snoc: "from_digits (ds @ [c]) = 10 * from_digits ds + digit_value c"
  by (simp add: from_digits_def)

lemma from_digits_to_string: "from_digits (to_string n) = n"
proof (induction n rule: to_string.induct)
  case (1 n)
  show ?case
  proof (cases "n < 10")
    case True
    then show ?thesis
      by (subst to_string.simps) (simp add: from_digits_def digit_value_digit_char)
  next
    case False
    with 1 have "from_digits (to_string (n div 10)) = n div 10" by simp
    with False show ?thesis
      by (subst to_string.simps) (simp add: from_digits_snoc digit_value_digit_char)
  qed
qed

lemma to_string_inj: "to_string m = to_string n \<Longrightarrow> m = n"
  by (metis from_digits_to_string)

lemma location_path_of_inj: "location_path_of v = location_path_of w \<Longrightarrow> v = w"
  by (auto simp add: location_path_of_def word_unat_eq_iff dest: to_string_inj)

lemma client_path_of_inj: "client_path_of v = client_path_of w \<Longrightarrow> v = w"
  by (auto simp add: client_path_of_def word_unat_eq_iff dest: to_string_inj)

lemma from_digits_location_path_of:
  "from_digits (drop (length Location_prefix) (location_path_of w)) = unat w"
  by (simp add: location_path_of_def from_digits_to_string)

subsection \<open>The recent-locations deque\<close>

lemma trim_locations_drop: "trim_locations ls = drop (length ls - MAX_STORED_LOCATIONS) ls"
proof (induction ls rule: trim_locations.induct)
  case (1 ls)
  show ?case
  proof (cases "length ls > MAX_STORED_LOCATIONS")
    case True
    with 1 have "trim_locations (tl ls) = drop (length (tl ls) - MAX_STORED_LOCATIONS) (tl ls)"
      by simp
    moreover from True
    have "length ls - MAX_STORED_LOCATIONS = Suc (length (tl ls) - MAX_STORED_LOCATIONS)"
      by simp
    ultimately show ?thesis
      using True by (subst trim_locations.simps) (simp add: drop_Suc)
  next
    case False
    then show ?thesis
      by (subst trim_locations.simps) simp
  qed
qed

lemma handle_position_update_next_location_id:
  "m_next_location_id (handle_position_update pos s) = m_next_location_id s + 1"
  using location_partD [OF location_part_fold_notify_client]
  by (simp add: handle_position_update_def Let_def)

lemma handle_position_update_locations:
  "m_locations (handle_position_update pos s)
     = drop (Suc (length (m_locations s)) - MAX_STORED_LOCATIONS)
         (m_locations s @ [new_location pos s])"
  using location_partD [OF location_part_fold_notify_client]
  by (simp add: handle_position_update_def Let_def trim_locations_drop new_location_def)

lemma loc_object_path_new_location:
  "loc_object_path (new_location pos s) = location_path_of (m_next_location_id s + 1)"
  by (simp add: new_location_def set_from_geoclue1_position_def GeoClue2Location_new_def)

text \<open>
  The deque after any run: the paths of the last (at most 25) identifiers handed out,
  the counter being taken modulo \<open>2 ^ 32\<close>.
\<close>

lemma location_window_arith:
  "Suc n - min n 25 + (Suc (min n 25) - 25) = Suc (Suc n) - min (Suc n) 25"
  by (simp add: min_def)

lemma locations_after_run:
  fixes evs :: "event list"
  defines "n \<equiv> length (filter is_position_update evs)"
  shows "m_next_location_id (run initial_manager evs) = of_nat n
         \<and> map loc_object_path (m_locations (run initial_manager evs))
             = map (\<lambda>i. location_path_of (of_nat i)) [Suc n - min n 25 ..< Suc n]"
  unfolding n_def
proof (induction evs rule: rev_induct)
  case Nil
  show ?case
    by (simp add: run_Nil initial_manager_def set_backend_def GeoClue2Manager_new_def)
next
  case (snoc e evs)
  let ?s = "run initial_manager evs"
  let ?n = "length (filter is_position_update evs)"
  let ?f = "\<lambda>i. location_path_of (of_nat i :: guint)"
  show ?case
  proof (cases "is_position_update e")
    case False
    with snoc location_partD [OF location_part_step [OF False, of ?s]] show ?thesis
      by (simp add: run_snoc)
  next
    case True
    then obtain pos where e: "e = PositionUpdate pos" by (cases e) simp_all
    from snoc have id: "m_next_location_id ?s = of_nat ?n"
      and paths: "map loc_object_path (m_locations ?s) = map ?f [Suc ?n - min ?n 25 ..< Suc ?n]"
      by simp_all
    have "length (m_locations ?s) = length (map loc_object_path (m_locations ?s))"
      by simp
    also have "\<dots> = min ?n 25"
      by (simp only: paths length_map length_upt)
    finally have len: "length (m_locations ?s) = min ?n 25" .
    have new: "loc_object_path (new_location pos ?s) = ?f (Suc ?n)"
      by (simp add: loc_object_path_new_location id add.commute)
    have "map loc_object_path (m_locations (handle_position_update pos ?s))
            = drop (Suc (min ?n 25) - 25)
                (map loc_object_path (m_locations ?s) @ [loc_object_path (new_location pos ?s)])"
      by (simp add: handle_position_update_locations drop_map len MAX_STORED_LOCATIONS_def)
    also have "\<dots> = drop (Suc (min ?n 25) - 25)
                          (map ?f [Suc ?n - min ?n 25 ..< Suc ?n] @ [?f (Suc ?n)])"
      by (simp only: paths new)
    also have "map ?f [Suc ?n - min ?n 25 ..< Suc ?n] @ [?f (Suc ?n)]
                 = map ?f [Suc ?n - min ?n 25 ..< Suc (Suc ?n)]"
      by simp
    also have "drop (Suc (min ?n 25) - 25) \<dots>
                 = map ?f [Suc ?n - min ?n 25 + (Suc (min ?n 25) - 25) ..< Suc (Suc ?n)]"
      by (simp only: drop_map drop_upt)
    finally have "map loc_object_path (m_locations (handle_position_update pos ?s))
                    = map ?f [Suc (Suc ?n) - min (Suc ?n) 25 ..< Suc (Suc ?n)]"
      by (simp only: location_window_arith)
    with e id show ?thesis
      by (simp add: run_snoc handle_position_update_next_location_id del: upt_Suc)
  qed
qed

lemma location_ids_after_run:
  fixes evs :: "event list"
  defines "n \<equiv> length (filter is_position_update evs)"
  shows "map location_id (m_locations (run initial_manager evs))
           = map (\<lambda>i. unat (of_nat i :: guint)) [Suc n - min n 25 ..< Suc n]"
proof -
  have "map location_id (m_locations (run initial_manager evs))
          = map (\<lambda>p. from_digits (drop (length Location_prefix) p))
              (map loc_object_path (m_locations (run initial_manager evs)))"
    by (simp add: location_id_def)
  also have "\<dots> = map (\<lambda>i. unat (of_nat i :: guint)) [Suc n - min n 25 ..< Suc n]"
    unfolding n_def
    by (simp only: locations_after_run map_map o_def from_digits_location_path_of)
  finally show ?thesis .
qed

lemma length_locations_after_run:
  "length (m_locations (run initial_manager evs))
     = min (length (filter is_position_update evs)) 25"
proof -
  have "length (m_locations (run initial_manager evs))
          = length (map location_id (m_locations (run initial_manager evs)))"
    by simp
  also have "\<dots> = min (length (filter is_position_update evs)) 25"
    by (simp only: location_ids_after_run length_map length_upt) 
  finally show ?thesis .
qed

text \<open>
  Claim C7, as amended.  In every state the manager reaches, the recent-locations deque
  holds at most 25 entries, and a position update appends the new location and drops
  entries from the front only, as many as exceed the bound.  As long as the manager has
  dispatched fewer than \<open>2 ^ 32\<close> position updates (the range of the \<open>guint\<close>
  location counter), the identifiers in the object paths of the entries are strictly
  increasing from front to back.
\<close>

theorem recent_locations_bounded_fifo_increasing:
  "length (m_locations (run initial_manager evs)) \<le> MAX_STORED_LOCATIONS
   \<and> m_locations (step (PositionUpdate pos) (run initial_manager evs))
       = drop (Suc (length (m_locations (run initial_manager evs))) - MAX_STORED_LOCATIONS)
           (m_locations (run initial_manager evs) @ [new_location pos (run initial_manager evs)])
   \<and> (length (filter is_position_update evs) < 2 ^ 32 \<longrightarrow>
        sorted_wrt (<) (map location_id (m_locations (run initial_manager evs))))"
proof (intro conjI impI)
  let ?n = "length (filter is_position_update evs)"
  show "length (m_locations (run initial_manager evs)) \<le> MAX_STORED_LOCATIONS"
    by (simp add: length_locations_after_run MAX_STORED_LOCATIONS_def)
  show "m_locations (step (PositionUpdate pos) (run initial_manager evs))
          = drop (Suc (length (m_locations (run initial_manager evs))) - MAX_STORED_LOCATIONS)
              (m_locations (run initial_manager evs)
                 @ [new_location pos (run initial_manager evs)])"
    by (simp add: handle_position_update_locations)
  assume small: "?n < 2 ^ 32"
  have "map (\<lambda>i. unat (of_nat i :: guint)) [Suc ?n - min ?n 25 ..< Suc ?n]
          = map (\<lambda>i. i) [Suc ?n - min ?n 25 ..< Suc ?n]"
  proof (rule map_cong [OF refl])
    fix i assume "i \<in> set [Suc ?n - min ?n 25 ..< Suc ?n]"
    then have "i < 2 ^ 32" using small by auto
    then show "unat (of_nat i :: guint) = i"
      by (simp add: unat_of_nat)
  qed
  then show "sorted_wrt (<) (map location_id (m_locations (run initial_manager evs)))"
    by (simp only: location_ids_after_run map_ident sorted_wrt_upt)
qed

theorem recent_locations_witness:
  "length (filter is_position_update
       [PositionUpdate position_record_S1, GetClient '':1.7'' True,
        PositionUpdate position_record_S1]) < 2 ^ 32
   \<and> map location_id (m_locations (run initial_manager
       [PositionUpdate position_record_S1, GetClient '':1.7'' True,
        PositionUpdate position_record_S1])) = [1, 2]
   \<and> sorted_wrt (<) (map location_id (m_locations (run initial_manager
       [PositionUpdate position_record_S1, GetClient '':1.7'' True,
        PositionUpdate position_record_S1])))"
proof -
  let ?evs = "[PositionUpdate position_record_S1, GetClient '':1.7'' True,
               PositionUpdate position_record_S1]"
  have len: "length (filter is_position_update ?evs) < 2 ^ 32"
    by simp
  have ids: "map location_id (m_locations (run initial_manager ?evs)) = [1, 2]"
    using location_ids_after_run [of ?evs] by simp
  from recent_locations_bounded_fifo_increasing [of ?evs] len
  have "sorted_wrt (<) (map location_id (m_locations (run initial_manager ?evs)))"
    by blast
  with len ids show ?thesis
    by (simp only: simp_thms)
qed

lemma wrapped_window_not_increasing:
  assumes "25 \<le> N" and "(of_nat N :: guint) = 0"
  shows "\<not> sorted_wrt (<) (map (\<lambda>i. unat (of_nat i :: guint)) [Suc N - min N 25 ..< Suc N])"
proof
  let ?g = "\<lambda>i. unat (of_nat i :: guint)"
  assume sorted: "sorted_wrt (<) (map ?g [Suc N - min N 25 ..< Suc N])"
  from assms(1) have "[Suc N - min N 25 ..< Suc N] = [Suc N - min N 25 ..< N] @ [N]"
    by simp
  with sorted have "sorted_wrt (<) (map ?g [Suc N - min N 25 ..< N] @ [?g N])"
    by simp
  then have "\<forall>x \<in> set (map ?g [Suc N - min N 25 ..< N]). x < ?g N"
    by (simp only: sorted_wrt_append) simp
  moreover from assms(1) have "N - 1 \<in> set [Suc N - min N 25 ..< N]"
    by auto
  ultimately have "?g (N - 1) < ?g N"
    by (metis (no_types, lifting) image_eqI set_map)
  with assms(2) show False by simp
qed

text \<open>
  Claim C7 as stated fails once the \<open>guint\<close> counter wraps: after \<open>2 ^ 32\<close> position
  updates the newest location has identifier 0 and sits behind identifier
  \<open>2 ^ 32 - 1\<close>.
\<close>

theorem location_ids_wrap_counterexample:
  "\<not> sorted_wrt (<)
       (map location_id (m_locations (run initial_manager (position_updates (2 ^ 32)))))"
proof -
  have cnt: "length (filter is_position_update (position_updates N)) = N" for N
    by (simp add: position_updates_def)
  have ids: "map location_id (m_locations (run initial_manager (position_updates N)))
               = map (\<lambda>i. unat (of_nat i :: guint)) [Suc N - min N 25 ..< Suc N]" for N
    using location_ids_after_run [of "position_updates N"] by (simp only: cnt)
  have "\<not> sorted_wrt (<) (map (\<lambda>i. unat (of_nat i :: guint))
            [Suc (2 ^ 32) - min (2 ^ 32) 25 ..< Suc (2 ^ 32)])"
    by (rule wrapped_window_not_increasing) simp_all
  then show ?thesis
    unfolding ids .
qed

subsection \<open>The two registries\<close>

lemmas manager_eval_defs =
  run_def initial_manager_def set_backend_def GeoClue2Manager_new_def
  on_handle_get_client_def on_handle_create_client_def create_client_for_peer_def
  client_path_of_def Client_prefix_def to_string.simps digit_char_def
  set_active_changed_callback_def GeoClue2Client_new_def emit_def Let_def
  release_def referenced_def destroy_client_def GeoClue2Client_destructor_def set_active_def
  client_became_inactive_def client_became_active_def update_in_use_property_def
  remove_grace_timeout_def glib_source_id_def on_peer_vanished_def paths_to_remove_def
  remove_client_def on_handle_delete_client_def client_method_def exported_client_def
  on_handle_start_def on_handle_stop_def complete_with_path_def

text \<open>
  Claim C2.  The claim says that in every reachable state a client is in both registries
  or in neither.  \<open>CreateClient\<close> stores the new client under the caller's name in the
  peer registry, which holds one client per name: the second \<open>CreateClient\<close> of a peer
  replaces the first client there, and the first client stays in the path registry only.
  When the peer then vanishes, \<open>on_peer_vanished\<close> finds the second client alone; the
  first one, active or not, stays registered under its path and alive.
\<close>

theorem create_client_twice_splits_registries:
  "map_of (m_clients_by_path
            (run initial_manager [CreateClient '':1.7'' True, CreateClient '':1.7'' True]))
       ''/org/freedesktop/GeoClue2/Client/1'' = Some 0
   \<and> 0 \<notin> set (map snd (m_clients_by_peer
            (run initial_manager [CreateClient '':1.7'' True, CreateClient '':1.7'' True])))
   \<and> m_clients_by_peer
        (run initial_manager
           [CreateClient '':1.7'' True, CreateClient '':1.7'' True,
            ClientStart ''/org/freedesktop/GeoClue2/Client/1'', PeerVanished '':1.7'']) = []
   \<and> m_clients_by_path
        (run initial_manager
           [CreateClient '':1.7'' True, CreateClient '':1.7'' True,
            ClientStart ''/org/freedesktop/GeoClue2/Client/1'', PeerVanished '':1.7''])
       = [(''/org/freedesktop/GeoClue2/Client/1'', 0)]
   \<and> m_active_clients
        (run initial_manager
           [CreateClient '':1.7'' True, CreateClient '':1.7'' True,
            ClientStart ''/org/freedesktop/GeoClue2/Client/1'', PeerVanished '':1.7'']) = 1"
  by (simp add: manager_eval_defs)

subsection \<open>The grace period\<close>

lemma main_startup_ignores_options: "main_startup options True = Some initial_manager"
  by (simp add: main_startup_def geoclue2_manager_register_def initial_manager_def)

lemma grace_timeout_ms_step: "m_grace_timeout_ms (step e s) = m_grace_timeout_ms s"
proof (cases "is_position_update e")
  case False
  then show ?thesis
    using location_partD [OF location_part_step] by simp
next
  case True
  then obtain pos where "e = PositionUpdate pos" by (cases e) simp_all
  moreover have "m_grace_timeout_ms (handle_position_update pos s) = m_grace_timeout_ms s"
    using location_partD [OF location_part_fold_notify_client]
    by (simp add: handle_position_update_def Let_def)
  ultimately show ?thesis by simp
qed

lemma grace_timeout_ms_run:
  "m_grace_timeout_ms (run initial_manager evs) = 15000"
proof (induction evs rule: rev_induct)
  case Nil
  show ?case
    by (simp add: run_Nil initial_manager_def set_backend_def GeoClue2Manager_new_def)
next
  case (snoc e evs)
  then show ?case
    by (simp add: run_snoc grace_timeout_ms_step)
qed

text \<open>
  Claim C3.  The claim says that the value of \<open>--grace-timeout\<close> is the grace period
  the manager arms its timer with.  \<open>main\<close> parses the value into
  \<open>options.grace_timeout_ms\<close> and never hands it to the manager, whose
  \<open>m_grace_timeout_ms\<close> keeps its initialiser 15000 (\<open>main_startup_ignores_options\<close>,
  \<open>grace_timeout_ms_run\<close>).  With \<open>--grace-timeout=5000\<close>, a client that starts
  and stops makes the manager arm the timer with 15000 ms.
\<close>

theorem grace_timeout_option_not_used:
  "grace_timeout_ms (parse_command_line False (Some 5000)) = 5000
   \<and> main_startup (parse_command_line False (Some 5000)) True = Some initial_manager
   \<and> effects (run initial_manager
                [GetClient '':1.7'' True, ClientStart ''/org/freedesktop/GeoClue2/Client/1'',
                 ClientStop ''/org/freedesktop/GeoClue2/Client/1''])
       = [BusWatchName '':1.7'', BackendStartTracking,
          ClientSignal ''/org/freedesktop/GeoClue2/Client/1'' CompleteStart,
          GTimeoutAdd 15000,
          ClientSignal ''/org/freedesktop/GeoClue2/Client/1'' CompleteStop]"
  by (simp add: parse_command_line_def main_startup_ignores_options manager_eval_defs)

subsection \<open>The client heap\<close>

lemma objects_fold_deliver [simp]: "objects (fold (deliver p) sigs s) = objects s"
  using registry_partD [OF registry_part_fold_deliver] by simp

lemma objects_destroy_client: "objects (destroy_client a s) = AList.delete a (objects s)"
proof (cases "map_of (objects s) a")
  case None
  then have "a \<notin> fst ` set (objects s)"
    by (simp add: map_of_eq_None_iff)
  with None show ?thesis
    by (simp add: destroy_client_def)
next
  case (Some c)
  then show ?thesis
    by (simp add: destroy_client_def)
qed

lemma objects_release:
  "objects (release a s) = (if referenced a s then objects s else AList.delete a (objects s))"
  by (simp add: release_def objects_destroy_client)

lemma heap_ok_registry_part:
  "registry_part s' = registry_part s \<Longrightarrow> heap_ok s' = heap_ok s"
  by (simp add: heap_ok_def registry_part_def maps_part_def)

lemma heap_ok_maps_part:
  "maps_part s' = maps_part s \<Longrightarrow> objects s' = objects s \<Longrightarrow> heap_ok s' = heap_ok s"
  by (simp add: heap_ok_def maps_part_def)

lemma referenced_maps_part:
  "maps_part s' = maps_part s \<Longrightarrow> referenced a s' = referenced a s"
  by (simp add: referenced_def maps_part_def)

lemma set_map_fst_delete: "set (map fst (AList.delete a xs)) = set (map fst xs) - {a}"
  by (simp add: delete_keys)

lemma set_map_snd_delete: "set (map snd (AList.delete a xs)) \<subseteq> set (map snd xs)"
  by (induction xs) auto

lemma heap_ok_release: "heap_ok s \<Longrightarrow> heap_ok (release a s)"
proof (cases "referenced a s")
  case True
  assume "heap_ok s"
  with True show ?thesis by (simp add: release_def)
next
  case False
  assume ok: "heap_ok s"
  let ?s' = "destroy_client a s"
  have m: "maps_part ?s' = maps_part s" by simp
  have o: "objects ?s' = AList.delete a (objects s)" by (rule objects_destroy_client)
  from maps_partD [OF m]
  have eqs: "next_address ?s' = next_address s" "m_clients_by_peer ?s' = m_clients_by_peer s"
    "m_clients_by_path ?s' = m_clients_by_path s" by simp_all
  have "heap_ok ?s'"
    unfolding heap_ok_def eqs o
  proof (intro conjI)
    from ok show "distinct (map fst (AList.delete a (objects s)))"
      by (simp add: heap_ok_def distinct_delete)
    from ok show "\<forall>b \<in> set (map fst (AList.delete a (objects s))). b < next_address s"
      by (simp add: heap_ok_def set_map_fst_delete del: set_map)
    from ok False
    show "\<forall>b \<in> set (map snd (m_clients_by_peer s)) \<union> set (map snd (m_clients_by_path s)).
            b \<in> set (map fst (AList.delete a (objects s)))"
      unfolding set_map_fst_delete heap_ok_def referenced_def by blast
    from ok set_map_snd_delete [of a "objects s"]
    show "\<forall>c \<in> set (map snd (AList.delete a (objects s))). m_active_changed_callback c"
      unfolding heap_ok_def by blast
  qed
  with False show ?thesis by (simp add: release_def)
qed

lemma maps_part_with_by_peer:
  "maps_part (s\<lparr>m_clients_by_peer := xs\<rparr>)
     = (next_address s, xs, m_clients_by_path s, m_next_client_id s)"
  by (simp add: maps_part_def)

lemma maps_part_with_by_path:
  "maps_part (s\<lparr>m_clients_by_path := xs\<rparr>)
     = (next_address s, m_clients_by_peer s, xs, m_next_client_id s)"
  by (simp add: maps_part_def)

lemma maps_part_store_by_peer:
  "maps_part (store_by_peer peer a s)
     = (next_address s, AList.update peer a (m_clients_by_peer s), m_clients_by_path s,
        m_next_client_id s)"
  by (simp add: store_by_peer_def maps_part_with_by_peer split: option.splits)

lemma maps_part_store_by_path:
  "maps_part (store_by_path path a s)
     = (next_address s, m_clients_by_peer s, AList.update path a (m_clients_by_path s),
        m_next_client_id s)"
  by (simp add: store_by_path_def maps_part_with_by_path split: option.splits)

lemma store_by_peer_fields [simp]:
  "next_address (store_by_peer peer a s) = next_address s"
  "m_clients_by_peer (store_by_peer peer a s) = AList.update peer a (m_clients_by_peer s)"
  "m_clients_by_path (store_by_peer peer a s) = m_clients_by_path s"
  "m_next_client_id (store_by_peer peer a s) = m_next_client_id s"
  using maps_part_store_by_peer [of peer a s] by (simp_all add: maps_part_def)

lemma store_by_path_fields [simp]:
  "next_address (store_by_path path a s) = next_address s"
  "m_clients_by_peer (store_by_path path a s) = m_clients_by_peer s"
  "m_clients_by_path (store_by_path path a s) = AList.update path a (m_clients_by_path s)"
  "m_next_client_id (store_by_path path a s) = m_next_client_id s"
  using maps_part_store_by_path [of path a s] by (simp_all add: maps_part_def)

lemma alloc_client_fields [simp]:
  "next_address (alloc_client path e s) = Suc (next_address s)"
  "m_clients_by_peer (alloc_client path e s) = m_clients_by_peer s"
  "m_clients_by_path (alloc_client path e s) = m_clients_by_path s"
  "m_next_client_id (alloc_client path e s) = m_next_client_id s + 1"
  "objects (alloc_client path e s)
     = objects s @ [(next_address s, set_active_changed_callback (GeoClue2Client_new path e))]"
  by (simp_all add: alloc_client_def)

lemma create_client_for_peer_stages:
  "create_client_for_peer peer reuse e s =
     (case (if reuse then map_of (m_clients_by_peer s) peer else None) of
        Some a \<Rightarrow> (a, s)
      | None \<Rightarrow>
          (next_address s,
           emit [BusWatchName peer]
             (store_by_path (client_path_of (m_next_client_id s + 1)) (next_address s)
               (store_by_peer peer (next_address s)
                 (alloc_client (client_path_of (m_next_client_id s + 1)) e s)))))"
  by (simp add: create_client_for_peer_def store_by_peer_def store_by_path_def alloc_client_def
      Let_def split: option.splits)

lemma set_map_snd_update: "set (map snd (AList.update k v xs)) \<subseteq> insert v (set (map snd xs))"
  by (induction xs) auto

lemma heap_ok_alloc_client: "heap_ok s \<Longrightarrow> heap_ok (alloc_client path e s)"
  by (fastforce simp add: heap_ok_def alloc_client_def set_active_changed_callback_def)

lemma heap_ok_store_by_peer:
  assumes "heap_ok s" and "a \<in> set (map fst (objects s))"
  shows "heap_ok (store_by_peer peer a s)"
proof -
  let ?s = "s\<lparr>m_clients_by_peer := AList.update peer a (m_clients_by_peer s)\<rparr>"
  from assms set_map_snd_update [of peer a "m_clients_by_peer s"] have "heap_ok ?s"
    unfolding heap_ok_def by (simp del: set_map) blast
  then show ?thesis
    by (simp add: store_by_peer_def heap_ok_release split: option.splits)
qed

lemma heap_ok_store_by_path:
  assumes "heap_ok s" and "a \<in> set (map fst (objects s))"
  shows "heap_ok (store_by_path path a s)"
proof -
  let ?s = "s\<lparr>m_clients_by_path := AList.update path a (m_clients_by_path s)\<rparr>"
  from assms set_map_snd_update [of path a "m_clients_by_path s"] have "heap_ok ?s"
    unfolding heap_ok_def by (simp del: set_map) blast
  then show ?thesis
    by (simp add: store_by_path_def heap_ok_release split: option.splits)
qed

lemma map_of_objects_release:
  "referenced b s \<Longrightarrow> map_of (objects (release a s)) b = map_of (objects s) b"
proof (cases "referenced a s")
  case True
  then show ?thesis by (simp add: objects_release)
next
  case False
  assume "referenced b s"
  with False have "b \<noteq> a" by auto
  with False show ?thesis by (simp add: objects_release)
qed

lemma value_in_update: "a \<in> set (map snd (AList.update k a xs))"
  by (induction xs) auto

lemma other_value_in_update:
  "map_of xs k' = Some b \<Longrightarrow> k' \<noteq> k \<Longrightarrow> b \<in> set (map snd (AList.update k a xs))"
proof -
  assume "map_of xs k' = Some b" and "k' \<noteq> k"
  then have "map_of (AList.update k a xs) k' = Some b"
    by (simp add: update_conv')
  then have "(k', b) \<in> set (AList.update k a xs)"
    by (rule map_of_SomeD)
  then show ?thesis
    by force
qed

lemma map_of_objects_store_by_peer:
  assumes "b = a \<or> b \<in> set (map snd (m_clients_by_path s))"
  shows "map_of (objects (store_by_peer peer a s)) b = map_of (objects s) b"
proof -
  let ?s = "s\<lparr>m_clients_by_peer := AList.update peer a (m_clients_by_peer s)\<rparr>"
  from assms value_in_update [of a peer "m_clients_by_peer s"] have "referenced b ?s"
    by (auto simp add: referenced_def)
  then have "map_of (objects (release old ?s)) b = map_of (objects s) b" for old
    by (simp add: map_of_objects_release)
  then show ?thesis
    by (simp add: store_by_peer_def split: option.splits)
qed

lemma map_of_objects_store_by_path:
  assumes "b = a \<or> b \<in> set (map snd (m_clients_by_peer s))
           \<or> (\<exists>k. k \<noteq> path \<and> map_of (m_clients_by_path s) k = Some b)"
  shows "map_of (objects (store_by_path path a s)) b = map_of (objects s) b"
proof -
  let ?s = "s\<lparr>m_clients_by_path := AList.update path a (m_clients_by_path s)\<rparr>"
  from assms value_in_update [of a path "m_clients_by_path s"]
    other_value_in_update [of "m_clients_by_path s" _ b path a]
  have "referenced b ?s"
    by (auto simp add: referenced_def)
  then have "map_of (objects (release old ?s)) b = map_of (objects s) b" for old
    by (simp add: map_of_objects_release)
  then show ?thesis
    by (simp add: store_by_path_def split: option.splits)
qed

lemma map_of_objects_alloc_client_new:
  assumes "heap_ok s"
  shows "map_of (objects (alloc_client q e s)) (next_address s)
           = Some (set_active_changed_callback (GeoClue2Client_new q e))"
proof -
  from assms have "next_address s \<notin> fst ` set (objects s)"
    by (auto simp add: heap_ok_def)
  then have "map_of (objects s) (next_address s) = None"
    by (simp add: map_of_eq_None_iff)
  then show ?thesis
    by (simp add: map_add_def)
qed

lemma map_of_objects_alloc_client_old:
  "map_of (objects s) b = Some c \<Longrightarrow> map_of (objects (alloc_client q e s)) b = Some c"
  by (simp add: map_add_def)

text \<open>What \<open>create_client_for_peer\<close> gives when it makes a client.\<close>

lemma create_client_for_peer_new:
  assumes ok: "heap_ok s"
    and new: "(if reuse then map_of (m_clients_by_peer s) peer else None) = None"
  shows "fst (create_client_for_peer peer reuse e s) = next_address s"
    and "map_of (objects (snd (create_client_for_peer peer reuse e s))) (next_address s)
           = Some (set_active_changed_callback
                     (GeoClue2Client_new (client_path_of (m_next_client_id s + 1)) e))"
    and "map_of (m_clients_by_peer (snd (create_client_for_peer peer reuse e s))) peer
           = Some (next_address s)"
    and "map_of (m_clients_by_path (snd (create_client_for_peer peer reuse e s)))
           (client_path_of (m_next_client_id s + 1)) = Some (next_address s)"
    and "next_address (snd (create_client_for_peer peer reuse e s)) = Suc (next_address s)"
    and "m_next_client_id (snd (create_client_for_peer peer reuse e s)) = m_next_client_id s + 1"
    and "heap_ok (snd (create_client_for_peer peer reuse e s))"
proof -
  let ?q = "client_path_of (m_next_client_id s + 1)"
  let ?a = "next_address s"
  let ?s1 = "alloc_client ?q e s"
  let ?s3 = "store_by_peer peer ?a ?s1"
  let ?s5 = "store_by_path ?q ?a ?s3"
  have eq: "create_client_for_peer peer reuse e s = (?a, emit [BusWatchName peer] ?s5)"
    by (simp add: create_client_for_peer_stages new)
  have reg: "registry_part (emit [BusWatchName peer] ?s5) = registry_part ?s5"
    by simp
  note parts = registry_partD [OF reg, THEN conjunct1]
    maps_partD [OF registry_partD [OF reg, THEN conjunct2, THEN conjunct1]]
  have o1: "map_of (objects ?s1) ?a
              = Some (set_active_changed_callback (GeoClue2Client_new ?q e))"
    by (rule map_of_objects_alloc_client_new [OF ok])
  have o3: "map_of (objects ?s3) ?a = map_of (objects ?s1) ?a"
    by (rule map_of_objects_store_by_peer) simp
  have o5: "map_of (objects ?s5) ?a = map_of (objects ?s3) ?a"
    by (rule map_of_objects_store_by_path) simp
  show "fst (create_client_for_peer peer reuse e s) = ?a"
    by (simp add: eq)
  show "map_of (objects (snd (create_client_for_peer peer reuse e s))) ?a
          = Some (set_active_changed_callback (GeoClue2Client_new ?q e))"
    by (simp only: eq snd_conv parts o5 o3 o1)
  show "map_of (m_clients_by_peer (snd (create_client_for_peer peer reuse e s))) peer = Some ?a"
    by (simp add: eq parts update_conv')
  show "map_of (m_clients_by_path (snd (create_client_for_peer peer reuse e s))) ?q = Some ?a"
    by (simp add: eq parts update_conv')
  show "next_address (snd (create_client_for_peer peer reuse e s)) = Suc ?a"
    by (simp add: eq parts)
  show "m_next_client_id (snd (create_client_for_peer peer reuse e s)) = m_next_client_id s + 1"
    by (simp add: eq parts)
  have h1: "heap_ok ?s1" by (rule heap_ok_alloc_client [OF ok])
  from o1 have "?a \<in> fst ` set (objects ?s1)"
    by (metis domI dom_map_of_conv_image_fst)
  then have h3: "heap_ok ?s3"
    using h1 by (intro heap_ok_store_by_peer) simp_all
  from o3 o1 have "?a \<in> fst ` set (objects ?s3)"
    by (metis domI dom_map_of_conv_image_fst)
  then have "heap_ok ?s5"
    using h3 by (intro heap_ok_store_by_path) simp_all
  then show "heap_ok (snd (create_client_for_peer peer reuse e s))"
    by (simp add: eq heap_ok_registry_part [OF reg])
qed

lemma heap_ok_create_client_for_peer:
  "heap_ok s \<Longrightarrow> heap_ok (snd (create_client_for_peer peer reuse e s))"
proof (cases "(if reuse then map_of (m_clients_by_peer s) peer else None)")
  case None
  assume "heap_ok s"
  then show ?thesis using None by (rule create_client_for_peer_new)
next
  case (Some a)
  assume "heap_ok s"
  with Some show ?thesis by (simp add: create_client_for_peer_stages)
qed

lemma set_erase_first_value: "x \<in> set (erase_first_value a xs) \<Longrightarrow> x \<in> set xs"
  by (induction xs) (auto split: if_splits)

lemma set_map_snd_erase_first_value:
  "set (map snd (erase_first_value a xs)) \<subseteq> set (map snd xs)"
  using set_erase_first_value [of _ a xs] by auto

lemma heap_ok_shrink_by_path:
  "heap_ok s \<Longrightarrow> set (map snd xs) \<subseteq> set (map snd (m_clients_by_path s)) \<Longrightarrow>
     heap_ok (s\<lparr>m_clients_by_path := xs\<rparr>)"
  unfolding heap_ok_def by (simp del: set_map) blast

lemma heap_ok_shrink_by_peer:
  "heap_ok s \<Longrightarrow> set (map snd xs) \<subseteq> set (map snd (m_clients_by_peer s)) \<Longrightarrow>
     heap_ok (s\<lparr>m_clients_by_peer := xs\<rparr>)"
  unfolding heap_ok_def by (simp del: set_map) blast

lemma heap_ok_remove_client: "heap_ok s \<Longrightarrow> heap_ok (remove_client path s)"
proof (cases "map_of (m_clients_by_path s) path")
  case None
  assume "heap_ok s"
  with None show ?thesis by (simp add: remove_client_def)
next
  case (Some a)
  assume ok: "heap_ok s"
  let ?s1 = "s\<lparr>m_clients_by_path := AList.delete path (m_clients_by_path s)\<rparr>"
  let ?s2 = "?s1\<lparr>m_clients_by_peer := erase_first_value a (m_clients_by_peer ?s1)\<rparr>"
  have "heap_ok ?s1"
    using ok set_map_snd_delete [of path "m_clients_by_path s"]
    by (intro heap_ok_shrink_by_path) simp_all
  then have "heap_ok ?s2"
    using set_map_snd_erase_first_value [of a "m_clients_by_peer ?s1"]
    by (intro heap_ok_shrink_by_peer) simp_all
  then have "heap_ok (update_in_use_property ?s2)"
    by (simp add: heap_ok_registry_part [OF registry_part_update_in_use])
  then have "heap_ok (release a (update_in_use_property ?s2))"
    by (rule heap_ok_release)
  with Some show ?thesis
    by (simp add: remove_client_def Let_def)
qed

lemma heap_ok_fold_remove_client: "heap_ok s \<Longrightarrow> heap_ok (fold remove_client ps s)"
  by (induction ps arbitrary: s) (simp_all add: heap_ok_remove_client)

lemma heap_ok_update_object:
  assumes "heap_ok s" and "map_of (objects s) a = Some c" and "m_active_changed_callback c'"
  shows "heap_ok (s\<lparr>objects := AList.update a c' (objects s)\<rparr>)"
proof -
  from assms(2) have a: "a \<in> fst ` set (objects s)"
    by (metis domI dom_map_of_conv_image_fst)
  then have keys: "fst ` set (AList.update a c' (objects s)) = fst ` set (objects s)"
    by (auto simp add: dom_update)
  from assms(1,3) set_map_snd_update [of a c' "objects s"]
  have "\<forall>c \<in> set (map snd (AList.update a c' (objects s))). m_active_changed_callback c"
    unfolding heap_ok_def by blast
  with assms(1) keys show ?thesis
    by (simp add: heap_ok_def distinct_update)
qed

lemma callback_notify_location_update:
  "m_active_changed_callback (fst (notify_location_update lp c)) = m_active_changed_callback c"
  by (simp add: notify_location_update_def Let_def split: option.splits)

lemma callback_set_active:
  "m_active_changed_callback (fst (set_active b c)) = m_active_changed_callback c"
  by (simp add: set_active_def Let_def split: option.splits)

lemma heap_ok_notify_client: "heap_ok s \<Longrightarrow> heap_ok (notify_client lp pair s)"
proof (cases "map_of (objects s) (snd pair)")
  case None
  assume "heap_ok s"
  with None show ?thesis by (simp add: notify_client_def)
next
  case (Some c)
  assume ok: "heap_ok s"
  from Some have "c \<in> set (map snd (objects s))"
    by (force dest: map_of_SomeD)
  with ok have "m_active_changed_callback c"
    by (simp add: heap_ok_def del: set_map)
  then have "m_active_changed_callback (fst (notify_location_update lp c))"
    by (simp add: callback_notify_location_update)
  with ok Some
  have "heap_ok (s\<lparr>objects := AList.update (snd pair) (fst (notify_location_update lp c))
                                 (objects s)\<rparr>)"
    by (rule heap_ok_update_object)
  then have "heap_ok (fold (deliver (m_object_path c)) (snd (notify_location_update lp c))
               (s\<lparr>objects := AList.update (snd pair) (fst (notify_location_update lp c))
                                 (objects s)\<rparr>))"
    by (simp add: heap_ok_registry_part [OF registry_part_fold_deliver])
  with Some ok show ?thesis
    by (simp add: notify_client_def case_prod_beta)
qed

lemma heap_ok_fold_notify_client: "heap_ok s \<Longrightarrow> heap_ok (fold (notify_client lp) ps s)"
  by (induction ps arbitrary: s) (simp_all add: heap_ok_notify_client)

lemma heap_ok_handle_position_update:
  assumes "heap_ok s"
  shows "heap_ok (handle_position_update pos s)"
proof -
  have a: "heap_ok (s\<lparr>m_next_location_id := i\<rparr>) = heap_ok s"
          "heap_ok (s\<lparr>m_locations := ls\<rparr>) = heap_ok s" for s i ls
    by (simp_all add: heap_ok_def)
  show ?thesis
    by (simp add: handle_position_update_def Let_def a heap_ok_fold_notify_client assms)
qed

lemma exported_client_lookup:
  assumes "heap_ok s" and "exported_client path s = Some (a, c)"
  shows "map_of (objects s) a = Some c" and "m_object_path c = path"
    and "client_skeleton c \<noteq> None"
proof -
  from assms(2) have "(a, c) \<in> set (objects s)"
    and "m_object_path c = path \<and> client_skeleton c \<noteq> None"
    by (auto simp add: exported_client_def find_Some_iff in_set_conv_nth)
  moreover from assms(1) have "distinct (map fst (objects s))"
    by (simp add: heap_ok_def)
  ultimately show "map_of (objects s) a = Some c" and "m_object_path c = path"
    and "client_skeleton c \<noteq> None"
    by simp_all
qed

lemma callback_on_handle_start:
  "on_handle_start (Some c) = (Some c', sigs) \<Longrightarrow>
     m_active_changed_callback c' = m_active_changed_callback c"
  by (auto simp add: on_handle_start_def set_active_def Let_def split: if_splits option.splits)

lemma callback_on_handle_stop:
  "on_handle_stop (Some c) = (Some c', sigs) \<Longrightarrow>
     m_active_changed_callback c' = m_active_changed_callback c"
  by (auto simp add: on_handle_stop_def set_active_def Let_def split: if_splits option.splits)

lemma heap_ok_client_method:
  assumes ok: "heap_ok s"
    and h: "\<And>c c' sigs. h (Some c) = (Some c', sigs) \<Longrightarrow>
              m_active_changed_callback c' = m_active_changed_callback c"
  shows "heap_ok (client_method h path s)"
proof (cases "exported_client path s")
  case None
  with ok show ?thesis by (simp add: client_method_def)
next
  case (Some ac)
  obtain a c where ac: "ac = (a, c)" by (cases ac)
  note look = exported_client_lookup [OF ok Some [unfolded ac]]
  from look(1) have "c \<in> set (map snd (objects s))"
    by (force dest: map_of_SomeD)
  with ok have cb: "m_active_changed_callback c"
    by (simp add: heap_ok_def del: set_map)
  obtain r sigs where r: "h (Some c) = (r, sigs)" by (cases "h (Some c)")
  show ?thesis
  proof (cases r)
    case None
    with ok Some ac r show ?thesis
      by (simp add: client_method_def heap_ok_registry_part [OF registry_part_fold_deliver])
  next
    case (Some c')
    with r h cb have "m_active_changed_callback c'" by simp
    with ok look(1) have "heap_ok (s\<lparr>objects := AList.update a c' (objects s)\<rparr>)"
      by (rule heap_ok_update_object)
    with \<open>exported_client path s = Some ac\<close> ac r Some show ?thesis
      by (simp add: client_method_def heap_ok_registry_part [OF registry_part_fold_deliver])
  qed
qed

lemma heap_ok_step: "heap_ok s \<Longrightarrow> heap_ok (step e s)"
proof (cases e)
  case GraceTimeout
  assume "heap_ok s"
  then show ?thesis
    using GraceTimeout by (simp add: heap_ok_registry_part [OF registry_part_on_grace_timeout])
qed (simp_all add: on_handle_get_client_def on_handle_create_client_def case_prod_beta
       on_handle_delete_client_def on_handle_add_agent_def on_peer_vanished_def
       heap_ok_create_client_for_peer heap_ok_remove_client heap_ok_fold_remove_client
       heap_ok_handle_position_update heap_ok_client_method callback_on_handle_start
       callback_on_handle_stop)

lemma heap_ok_initial_manager: "heap_ok initial_manager"
  by (simp add: heap_ok_def initial_manager_def set_backend_def GeoClue2Manager_new_def)

lemma heap_ok_run: "heap_ok (run initial_manager evs)"
  by (induction evs rule: rev_induct) (simp_all add: run_Nil run_snoc heap_ok_initial_manager heap_ok_step)

subsection \<open>Back-to-back GetClient and CreateClient\<close>

lemma live_client_of_peer:
  assumes "heap_ok s" and "map_of (m_clients_by_peer s) peer = Some a"
  shows "\<exists>c. map_of (objects s) a = Some c"
proof -
  from assms(2) have "a \<in> set (map snd (m_clients_by_peer s))"
    by (force dest: map_of_SomeD)
  with assms(1) have "a \<in> fst ` set (objects s)"
    by (simp add: heap_ok_def del: set_map) auto
  then show ?thesis
    by (metis domD dom_map_of_conv_image_fst)
qed

lemma get_client_first:
  assumes ok: "heap_ok s"
  shows "\<exists>path. fst (on_handle_get_client peer e s) = Complete path
           \<and> client_of_peer peer path (snd (on_handle_get_client peer e s))
           \<and> next_address (snd (on_handle_get_client peer e s)) \<le> Suc (next_address s)"
proof (cases "map_of (m_clients_by_peer s) peer")
  case (Some a)
  from live_client_of_peer [OF ok Some] obtain c where "map_of (objects s) a = Some c" ..
  with Some show ?thesis
    by (simp add: on_handle_get_client_def create_client_for_peer_stages complete_with_path_def
        client_of_peer_def)
next
  case None
  then have new: "(if True then map_of (m_clients_by_peer s) peer else None) = None"
    by simp
  note facts = create_client_for_peer_new [OF ok new, of e]
  show ?thesis
    by (simp add: on_handle_get_client_def case_prod_beta complete_with_path_def
        client_of_peer_def facts set_active_changed_callback_def GeoClue2Client_new_def)
qed

lemma get_client_again:
  "client_of_peer peer path s \<Longrightarrow> on_handle_get_client peer e s = (Complete path, s)"
  by (auto simp add: client_of_peer_def on_handle_get_client_def create_client_for_peer_stages
      complete_with_path_def split: option.splits)

lemma get_client_calls_again:
  "client_of_peer peer path s \<Longrightarrow>
     get_client_calls peer es s = (replicate (length es) (Complete path), s)"
  by (induction es) (simp_all add: get_client_again)

lemma get_client_calls_single_client:
  assumes "heap_ok s" and "es \<noteq> []"
  shows "\<exists>path. fst (get_client_calls peer es s) = replicate (length es) (Complete path)
           \<and> client_of_peer peer path (snd (get_client_calls peer es s))
           \<and> next_address (snd (get_client_calls peer es s)) \<le> Suc (next_address s)"
proof -
  from assms(2) obtain e es' where es: "es = e # es'" by (cases es) simp_all
  from get_client_first [OF assms(1), of peer e] obtain path
    where first: "fst (on_handle_get_client peer e s) = Complete path"
      and reg: "client_of_peer peer path (snd (on_handle_get_client peer e s))"
      and addr: "next_address (snd (on_handle_get_client peer e s)) \<le> Suc (next_address s)"
    by blast
  from get_client_calls_again [OF reg, of es'] first reg addr
  have "fst (get_client_calls peer es s) = replicate (length es) (Complete path)
        \<and> client_of_peer peer path (snd (get_client_calls peer es s))
        \<and> next_address (snd (get_client_calls peer es s)) \<le> Suc (next_address s)"
    by (simp add: es case_prod_beta)
  then show ?thesis ..
qed

lemma create_client_step:
  assumes ok: "heap_ok s"
  shows "fst (on_handle_create_client peer e s) = Complete (client_path_of (m_next_client_id s + 1))"
    and "heap_ok (snd (on_handle_create_client peer e s))"
    and "next_address (snd (on_handle_create_client peer e s)) = Suc (next_address s)"
    and "m_next_client_id (snd (on_handle_create_client peer e s)) = m_next_client_id s + 1"
    and "registered_client (client_path_of (m_next_client_id s + 1))
           (snd (on_handle_create_client peer e s))"
proof -
  have new: "(if False then map_of (m_clients_by_peer s) peer else None) = None"
    by simp
  note facts = create_client_for_peer_new [OF ok new, of e]
  show "fst (on_handle_create_client peer e s)
          = Complete (client_path_of (m_next_client_id s + 1))"
    by (simp add: on_handle_create_client_def case_prod_beta complete_with_path_def facts
        set_active_changed_callback_def GeoClue2Client_new_def)
  show "heap_ok (snd (on_handle_create_client peer e s))"
    by (simp add: on_handle_create_client_def case_prod_beta facts)
  show "next_address (snd (on_handle_create_client peer e s)) = Suc (next_address s)"
    by (simp add: on_handle_create_client_def case_prod_beta facts)
  show "m_next_client_id (snd (on_handle_create_client peer e s)) = m_next_client_id s + 1"
    by (simp add: on_handle_create_client_def case_prod_beta facts)
  show "registered_client (client_path_of (m_next_client_id s + 1))
          (snd (on_handle_create_client peer e s))"
    by (simp add: on_handle_create_client_def case_prod_beta registered_client_def facts
        set_active_changed_callback_def GeoClue2Client_new_def)
qed

lemma registered_client_create_other:
  assumes ok: "heap_ok s" and reg: "registered_client Q s"
    and other: "Q \<noteq> client_path_of (m_next_client_id s + 1)"
  shows "registered_client Q (snd (on_handle_create_client peer e s))"
proof -
  let ?q = "client_path_of (m_next_client_id s + 1)"
  let ?a = "next_address s"
  let ?s1 = "alloc_client ?q e s"
  let ?s3 = "store_by_peer peer ?a ?s1"
  let ?s5 = "store_by_path ?q ?a ?s3"
  from reg obtain b c where path: "map_of (m_clients_by_path s) Q = Some b"
    and obj: "map_of (objects s) b = Some c" and c: "m_object_path c = Q"
    by (auto simp add: registered_client_def split: option.splits)
  have eq: "snd (on_handle_create_client peer e s) = emit [BusWatchName peer] ?s5"
    by (simp add: on_handle_create_client_def case_prod_beta create_client_for_peer_stages)
  have reg5: "registry_part (emit [BusWatchName peer] ?s5) = registry_part ?s5"
    by simp
  note parts = registry_partD [OF reg5, THEN conjunct1]
    maps_partD [OF registry_partD [OF reg5, THEN conjunct2, THEN conjunct1]]
  from path have inpath: "b \<in> set (map snd (m_clients_by_path s))"
    by (force dest: map_of_SomeD)
  have o1: "map_of (objects ?s1) b = Some c"
    by (rule map_of_objects_alloc_client_old [OF obj])
  have o3: "map_of (objects ?s3) b = map_of (objects ?s1) b"
    using inpath by (intro map_of_objects_store_by_peer) simp
  have o5: "map_of (objects ?s5) b = map_of (objects ?s3) b"
    using path other by (intro map_of_objects_store_by_path) auto
  have p5: "map_of (m_clients_by_path ?s5) Q = Some b"
    using path other by (simp add: update_conv')
  have "map_of (objects (emit [BusWatchName peer] ?s5)) b = Some c"
    by (simp only: parts o5 o3 o1)
  moreover have "map_of (m_clients_by_path (emit [BusWatchName peer] ?s5)) Q = Some b"
    by (simp only: parts p5)
  ultimately show ?thesis
    unfolding eq registered_client_def using c by simp
qed

lemma of_nat_Suc_Suc_guint: "w + 1 + (of_nat (Suc k) :: guint) = w + of_nat (Suc (Suc k))"
  by simp

lemma create_client_calls_results:
  assumes "heap_ok s"
  shows "fst (create_client_calls peer es s)
           = map (\<lambda>k. Complete (client_path_of (m_next_client_id s + of_nat (Suc k))))
               [0..<length es]
         \<and> next_address (snd (create_client_calls peer es s)) = next_address s + length es
         \<and> heap_ok (snd (create_client_calls peer es s))"
  using assms
proof (induction es arbitrary: s)
  case Nil
  then show ?case by simp
next
  case (Cons e es)
  let ?s1 = "snd (on_handle_create_client peer e s)"
  note step = create_client_step [OF Cons.prems, of peer e]
  from Cons.IH [OF step(2)]
  have ih: "fst (create_client_calls peer es ?s1)
              = map (\<lambda>k. Complete (client_path_of (m_next_client_id s + of_nat (Suc (Suc k)))))
                  [0..<length es]"
    and ih2: "next_address (snd (create_client_calls peer es ?s1)) = next_address ?s1 + length es"
    and ih3: "heap_ok (snd (create_client_calls peer es ?s1))"
    by (simp_all only: step(4) of_nat_Suc_Suc_guint)
  have "fst (create_client_calls peer (e # es) s)
          = Complete (client_path_of (m_next_client_id s + 1))
            # map (\<lambda>k. Complete (client_path_of (m_next_client_id s + of_nat (Suc (Suc k)))))
                [0..<length es]"
    by (simp add: case_prod_beta step(1) ih)
  also have "\<dots> = map (\<lambda>k. Complete (client_path_of (m_next_client_id s + of_nat (Suc k))))
                      [0..<length (e # es)]"
    by (simp add: map_upt_Suc del: upt_Suc)
  finally show ?case
    using ih2 ih3 by (simp add: case_prod_beta step(3))
qed

lemma of_nat_guint_inj:
  assumes "(of_nat x :: guint) = of_nat y" and "0 < x" and "x \<le> 2 ^ 32" and "0 < y"
    and "y \<le> 2 ^ 32"
  shows "x = y"
proof -
  from assms(1) have "x mod 2 ^ 32 = y mod 2 ^ 32"
    by (simp add: word_of_nat_eq_iff take_bit_eq_mod)
  with assms(2-) show ?thesis
    by (cases "x = 2 ^ 32"; cases "y = 2 ^ 32") auto
qed

lemma client_paths_distinct:
  assumes "n \<le> 2 ^ 32"
  shows "distinct (map (\<lambda>k. Complete (client_path_of (w + of_nat (Suc k)))) [0..<n])"
proof -
  have "inj_on (\<lambda>k. Complete (client_path_of (w + of_nat (Suc k)))) (set [0..<n])"
  proof (rule inj_onI)
    fix j k
    assume j: "j \<in> set [0..<n]" and k: "k \<in> set [0..<n]"
      and "Complete (client_path_of (w + of_nat (Suc j)))
             = Complete (client_path_of (w + of_nat (Suc k)))"
    then have "w + of_nat (Suc j) = w + of_nat (Suc k)"
      by (auto dest: client_path_of_inj)
    then have "(of_nat (Suc j) :: guint) = of_nat (Suc k)"
      by (simp only: add_left_cancel)
    then have "Suc j = Suc k"
      using j k assms by (intro of_nat_guint_inj) auto
    then show "j = k" by simp
  qed
  then show ?thesis
    by (simp add: distinct_map)
qed

lemma client_paths_repeat:
  assumes "2 ^ 32 < n"
  shows "\<not> distinct (map (\<lambda>k. Complete (client_path_of (w + of_nat (Suc k)))) [0..<n])"
proof
  let ?f = "\<lambda>k. Complete (client_path_of (w + of_nat (Suc k)))"
  assume "distinct (map ?f [0..<n])"
  then have inj: "inj_on ?f (set [0..<n])"
    by (simp add: distinct_map)
  from assms have mem: "0 \<in> set [0..<n]" "2 ^ 32 \<in> set [0..<n]"
    by simp_all
  have "(of_nat (Suc (2 ^ 32)) :: guint) = of_nat (Suc 0)"
    by (simp add: word_of_nat_eq_iff take_bit_eq_mod)
  then have eq: "?f 0 = ?f (2 ^ 32)"
    by (simp only:)
  have "(0::nat) = 2 ^ 32"
    by (rule inj_onD [OF inj eq mem])
  then show False by simp
qed

lemma create_client_calls_registered:
  assumes "heap_ok s" and "length es \<le> 2 ^ 32"
    and "\<forall>Q \<in> P. registered_client Q s"
    and "\<forall>Q \<in> P. \<forall>k < length es. Q \<noteq> client_path_of (m_next_client_id s + of_nat (Suc k))"
  shows "\<forall>Q \<in> P \<union> (\<lambda>k. client_path_of (m_next_client_id s + of_nat (Suc k))) ` {..<length es}.
           registered_client Q (snd (create_client_calls peer es s))"
  using assms
proof (induction es arbitrary: s P)
  case Nil
  then show ?case by simp
next
  case (Cons e es)
  let ?w = "m_next_client_id s"
  let ?q = "client_path_of (?w + 1)"
  let ?s1 = "snd (on_handle_create_client peer e s)"
  note step = create_client_step [OF Cons.prems(1), of peer e]
  have len: "length es \<le> 2 ^ 32" and len': "length es < 2 ^ 32"
    using Cons.prems(2) by simp_all
  have regP: "\<forall>Q \<in> insert ?q P. registered_client Q ?s1"
  proof
    fix Q assume "Q \<in> insert ?q P"
    then consider "Q = ?q" | "Q \<in> P" "Q \<noteq> ?q" by blast
    then show "registered_client Q ?s1"
    proof cases
      case 1
      then show ?thesis using step(5) by simp
    next
      case 2
      with Cons.prems(3) have "registered_client Q s" by simp
      then show ?thesis
        using 2(2) by (intro registered_client_create_other [OF Cons.prems(1)])
    qed
  qed
  have apart: "\<forall>Q \<in> insert ?q P. \<forall>k < length es.
                 Q \<noteq> client_path_of (m_next_client_id ?s1 + of_nat (Suc k))"
  proof (intro ballI allI impI)
    fix Q k assume Q: "Q \<in> insert ?q P" and k: "k < length es"
    show "Q \<noteq> client_path_of (m_next_client_id ?s1 + of_nat (Suc k))"
    proof (cases "Q = ?q")
      case True
      have "(of_nat (Suc k) :: guint) \<noteq> 0"
      proof
        assume "(of_nat (Suc k) :: guint) = 0"
        then have "(of_nat (Suc k) :: guint) = of_nat (2 ^ 32)" by simp
        then have "Suc k = 2 ^ 32"
          using k len' by (intro of_nat_guint_inj) simp_all
        with k len' show False by simp
      qed
      then have "?w + 1 \<noteq> ?w + 1 + of_nat (Suc k)"
        by simp
      then have "client_path_of (?w + 1) \<noteq> client_path_of (?w + 1 + of_nat (Suc k))"
        using client_path_of_inj by blast
      with True show ?thesis
        unfolding step(4) by (simp only: not_False_eq_True)
    next
      case False
      with Q have "Q \<in> P" by simp
      moreover from k have "Suc k < length (e # es)" by simp
      ultimately have "Q \<noteq> client_path_of (?w + of_nat (Suc (Suc k)))"
        using Cons.prems(4) by blast
      then show ?thesis
        unfolding step(4) of_nat_Suc_Suc_guint .
    qed
  qed
  from Cons.IH [OF step(2) len regP apart]
  have ih: "\<forall>Q \<in> insert ?q P
                   \<union> (\<lambda>k. client_path_of (?w + of_nat (Suc (Suc k)))) ` {..<length es}.
              registered_client Q (snd (create_client_calls peer es ?s1))"
    by (simp only: step(4) of_nat_Suc_Suc_guint)
  have sub: "(\<lambda>k. client_path_of (?w + of_nat (Suc k))) ` {..<length (e # es)}
          \<subseteq> insert ?q ((\<lambda>k. client_path_of (?w + of_nat (Suc (Suc k)))) ` {..<length es})"
  proof
    fix Q assume "Q \<in> (\<lambda>k. client_path_of (?w + of_nat (Suc k))) ` {..<length (e # es)}"
    then obtain k where k: "k < Suc (length es)" and Q: "Q = client_path_of (?w + of_nat (Suc k))"
      by auto
    show "Q \<in> insert ?q ((\<lambda>k. client_path_of (?w + of_nat (Suc (Suc k)))) ` {..<length es})"
    proof (cases k)
      case 0
      with Q show ?thesis by simp
    next
      case (Suc j)
      with k Q show ?thesis by auto
    qed
  qed
  have eq: "snd (create_client_calls peer (e # es) s) = snd (create_client_calls peer es ?s1)"
    by (simp add: case_prod_beta)
  show ?case
    unfolding eq using ih sub by blast
qed

subsection \<open>The clients made for a peer\<close>

lemma owners_append: "owners s (xs @ ys) = owners s xs @ owners (run s xs) ys"
  by (induction xs arbitrary: s) (simp_all add: run_Nil run_Cons)

lemma owners_snoc: "owners s (evs @ [e]) = owners s evs @ made_by e (run s evs)"
  by (simp add: owners_append run_Nil run_Cons)

lemma set_update_subset: "set (AList.update k v xs) \<subseteq> insert (k, v) (set xs)"
  by (induction xs) auto

lemma maps_release [simp]:
  "next_address (release a s) = next_address s"
  "m_clients_by_peer (release a s) = m_clients_by_peer s"
  using maps_partD [OF maps_part_release, of a s] by simp_all

lemma maps_update_in_use_property [simp]:
  "next_address (update_in_use_property s) = next_address s"
  "m_clients_by_peer (update_in_use_property s) = m_clients_by_peer s"
  by (simp_all add: update_in_use_property_def split: option.splits)

lemma next_address_remove_client [simp]: "next_address (remove_client path s) = next_address s"
  by (simp add: remove_client_def Let_def split: option.splits)

lemma by_peer_remove_client:
  "set (m_clients_by_peer (remove_client path s)) \<subseteq> set (m_clients_by_peer s)"
  using set_erase_first_value [of _ _ "m_clients_by_peer s"]
  by (auto simp add: remove_client_def Let_def split: option.splits)

lemma maps_fold_remove_client:
  "next_address (fold remove_client ps s) = next_address s
   \<and> set (m_clients_by_peer (fold remove_client ps s)) \<subseteq> set (m_clients_by_peer s)"
proof (induction ps arbitrary: s)
  case Nil
  show ?case by simp
next
  case (Cons p ps)
  from Cons [of "remove_client p s"] by_peer_remove_client [of p s]
  show ?case by auto
qed

lemma maps_other_event:
  assumes "calling_peer e = None"
  shows "next_address (step e s) = next_address s"
    and "set (m_clients_by_peer (step e s)) \<subseteq> set (m_clients_by_peer s)"
proof -
  have "next_address (step e s) = next_address s
        \<and> set (m_clients_by_peer (step e s)) \<subseteq> set (m_clients_by_peer s)"
  proof (cases e)
    case (PositionUpdate pos)
    have "next_address (handle_position_update pos s) = next_address s"
      and "m_clients_by_peer (handle_position_update pos s) = m_clients_by_peer s"
      using maps_partD [OF maps_part_fold_notify_client]
      by (simp_all add: handle_position_update_def Let_def)
    with PositionUpdate show ?thesis by simp
  next
    case (ClientStart path)
    then show ?thesis using maps_partD [OF maps_part_client_method, of on_handle_start path s] by simp
  next
    case (ClientStop path)
    then show ?thesis using maps_partD [OF maps_part_client_method, of on_handle_stop path s] by simp
  next
    case GraceTimeout
    then show ?thesis by (simp add: on_grace_timeout_def Let_def emit_def)
  next
    case (DeleteClient path)
    then show ?thesis by (simp add: on_handle_delete_client_def by_peer_remove_client)
  next
    case (PeerVanished name)
    then show ?thesis by (simp add: on_peer_vanished_def maps_fold_remove_client)
  next
    case (AddAgent agent_id)
    then show ?thesis by (simp add: on_handle_add_agent_def)
  next
    case (GetClient peer export_ok)
    with assms show ?thesis by simp
  next
    case (CreateClient peer export_ok)
    with assms show ?thesis by simp
  qed
  then show "next_address (step e s) = next_address s"
    and "set (m_clients_by_peer (step e s)) \<subseteq> set (m_clients_by_peer s)"
    by simp_all
qed

lemma maps_emit [simp]:
  "next_address (emit es s) = next_address s"
  "m_clients_by_peer (emit es s) = m_clients_by_peer s"
  "objects (emit es s) = objects s"
  by (simp_all add: emit_def)

lemma maps_create_client_for_peer:
  "(next_address (snd (create_client_for_peer peer reuse e s)) = next_address s
      \<and> m_clients_by_peer (snd (create_client_for_peer peer reuse e s)) = m_clients_by_peer s)
   \<or> (next_address (snd (create_client_for_peer peer reuse e s)) = Suc (next_address s)
      \<and> m_clients_by_peer (snd (create_client_for_peer peer reuse e s))
          = AList.update peer (next_address s) (m_clients_by_peer s))"
  by (simp add: create_client_for_peer_stages split: option.splits)

lemma maps_calling_event:
  assumes "calling_peer e = Some peer"
  shows "(next_address (step e s) = next_address s
            \<and> m_clients_by_peer (step e s) = m_clients_by_peer s)
         \<or> (next_address (step e s) = Suc (next_address s)
            \<and> m_clients_by_peer (step e s)
                = AList.update peer (next_address s) (m_clients_by_peer s))"
  using assms maps_create_client_for_peer [of peer _ _ s]
  by (cases e) (simp_all add: on_handle_get_client_def on_handle_create_client_def case_prod_beta)

lemma next_address_step_mono: "next_address s \<le> next_address (step e s)"
proof (cases "calling_peer e")
  case None
  then show ?thesis by (simp add: maps_other_event)
next
  case (Some peer)
  from maps_calling_event [OF this, of s] show ?thesis by auto
qed

lemma by_peer_step:
  assumes "(p, a) \<in> set (m_clients_by_peer (step e s))"
  shows "(p, a) \<in> set (m_clients_by_peer s) \<or> (a, p) \<in> set (made_by e s)"
proof (cases "calling_peer e")
  case None
  with assms maps_other_event(2) [OF None, of s] show ?thesis by auto
next
  case (Some peer)
  from maps_calling_event [OF this, of s] show ?thesis
  proof
    assume "next_address (step e s) = next_address s
            \<and> m_clients_by_peer (step e s) = m_clients_by_peer s"
    with assms show ?thesis by simp
  next
    assume new: "next_address (step e s) = Suc (next_address s)
            \<and> m_clients_by_peer (step e s)
                = AList.update peer (next_address s) (m_clients_by_peer s)"
    with assms set_update_subset [of peer "next_address s" "m_clients_by_peer s"]
    have "(p, a) = (peer, next_address s) \<or> (p, a) \<in> set (m_clients_by_peer s)"
      by auto
    moreover from new Some have "made_by e s = [(next_address s, peer)]"
      by (simp add: made_by_def)
    ultimately show ?thesis by auto
  qed
qed

lemma by_peer_owned:
  "(p, a) \<in> set (m_clients_by_peer (run initial_manager evs)) \<Longrightarrow>
     (a, p) \<in> set (owners initial_manager evs)"
proof (induction evs arbitrary: p a rule: rev_induct)
  case Nil
  then show ?case
    by (simp add: run_Nil initial_manager_def set_backend_def GeoClue2Manager_new_def)
next
  case (snoc e evs)
  from snoc.prems have "(p, a) \<in> set (m_clients_by_peer (step e (run initial_manager evs)))"
    by (simp only: run_snoc)
  then have "(p, a) \<in> set (m_clients_by_peer (run initial_manager evs))
             \<or> (a, p) \<in> set (made_by e (run initial_manager evs))"
    by (rule by_peer_step)
  with snoc.IH show ?case
    by (auto simp add: owners_snoc)
qed

lemma owners_below: "(a, p) \<in> set (owners s evs) \<Longrightarrow> a < next_address (run s evs)"
proof (induction evs arbitrary: a p rule: rev_induct)
  case Nil
  then show ?case by simp
next
  case (snoc e evs)
  let ?t = "run s evs"
  from snoc.prems have "(a, p) \<in> set (owners s evs) \<or> (a, p) \<in> set (made_by e ?t)"
    by (simp add: owners_snoc)
  then show ?case
  proof
    assume "(a, p) \<in> set (owners s evs)"
    then have "a < next_address ?t" by (rule snoc.IH)
    with next_address_step_mono [of ?t e] show ?thesis
      by (simp add: run_snoc)
  next
    assume "(a, p) \<in> set (made_by e ?t)"
    then show ?thesis
      by (auto simp add: made_by_def run_snoc split: option.splits)
  qed
qed

lemma get_client_calls_run:
  "snd (get_client_calls peer es s) = run s (map (GetClient peer) es)"
  by (induction es arbitrary: s) (simp_all add: run_Nil run_Cons case_prod_beta)

lemma repeat_get_client:
  assumes "client_of_peer peer path s"
  shows "run s (map (GetClient peer) es) = s" and "owners s (map (GetClient peer) es) = []"
  by (induction es) (simp_all add: run_Nil run_Cons made_by_def get_client_again [OF assms])

lemma listed_client_made_for_peer:
  assumes "map_of (m_clients_by_peer (run initial_manager evs)) peer = Some a"
  shows "\<exists>c. map_of (objects (run initial_manager evs)) a = Some c
           \<and> (a, c) \<in> set (clients_made_for peer evs)"
proof -
  from live_client_of_peer [OF heap_ok_run assms]
  obtain c where c: "map_of (objects (run initial_manager evs)) a = Some c" ..
  from assms have "(peer, a) \<in> set (m_clients_by_peer (run initial_manager evs))"
    by (rule map_of_SomeD)
  then have "(a, peer) \<in> set (owners initial_manager evs)"
    by (rule by_peer_owned)
  with map_of_SomeD [OF c] have "(a, c) \<in> set (clients_made_for peer evs)"
    by (simp add: clients_made_for_def)
  with c show ?thesis by blast
qed

lemma keys_release:
  "set (map fst (objects (release a s))) \<subseteq> set (map fst (objects s))"
  by (auto simp add: objects_release set_map_fst_delete simp del: set_map)

lemma keys_store_by_peer:
  "set (map fst (objects (store_by_peer peer a s))) \<subseteq> set (map fst (objects s))"
proof (cases "map_of (m_clients_by_peer s) peer")
  case None
  then show ?thesis by (simp add: store_by_peer_def)
next
  case (Some old)
  with keys_release [of old "s\<lparr>m_clients_by_peer := AList.update peer a (m_clients_by_peer s)\<rparr>"]
  show ?thesis by (simp add: store_by_peer_def del: set_map)
qed

lemma keys_store_by_path:
  "set (map fst (objects (store_by_path path a s))) \<subseteq> set (map fst (objects s))"
proof (cases "map_of (m_clients_by_path s) path")
  case None
  then show ?thesis by (simp add: store_by_path_def)
next
  case (Some old)
  with keys_release [of old "s\<lparr>m_clients_by_path := AList.update path a (m_clients_by_path s)\<rparr>"]
  show ?thesis by (simp add: store_by_path_def del: set_map)
qed

lemma keys_create_client_for_peer:
  "set (map fst (objects (snd (create_client_for_peer peer reuse e s))))
     \<subseteq> insert (next_address s) (set (map fst (objects s)))"
proof (cases "(if reuse then map_of (m_clients_by_peer s) peer else None)")
  case (Some a)
  then show ?thesis by (auto simp add: create_client_for_peer_stages)
next
  case None
  let ?q = "client_path_of (m_next_client_id s + 1)"
  let ?s1 = "alloc_client ?q e s"
  let ?s3 = "store_by_peer peer (next_address s) ?s1"
  have "set (map fst (objects (store_by_path ?q (next_address s) ?s3)))
          \<subseteq> set (map fst (objects ?s3))"
    by (rule keys_store_by_path)
  also have "\<dots> \<subseteq> set (map fst (objects ?s1))"
    by (rule keys_store_by_peer)
  also have "\<dots> = insert (next_address s) (set (map fst (objects s)))"
    by simp
  finally show ?thesis
    using None by (simp add: create_client_for_peer_stages del: set_map)
qed

lemma one_entry:
  "distinct (map fst xs) \<Longrightarrow> map_of xs k = Some v \<Longrightarrow> filter (\<lambda>(a, c). a = k) xs = [(k, v)]"
proof (induction xs)
  case Nil
  then show ?case by simp
next
  case (Cons x xs)
  obtain a c where x: "x = (a, c)" by (cases x)
  show ?case
  proof (cases "a = k")
    case True
    with Cons.prems x have "k \<notin> fst ` set xs" and "c = v"
      by simp_all
    then have "filter (\<lambda>(a, c). a = k) xs = []"
      by (force simp add: filter_empty_conv)
    with True x \<open>c = v\<close> show ?thesis by simp
  next
    case False
    with Cons x show ?thesis by simp
  qed
qed

lemma get_client_calls_listed:
  assumes listed: "map_of (m_clients_by_peer (run initial_manager evs)) peer = Some a"
    and one: "length (clients_made_for peer evs) = 1"
  shows "\<exists>a c. clients_made_for peer (evs @ map (GetClient peer) es) = [(a, c)]
           \<and> fst (get_client_calls peer es (run initial_manager evs))
               = replicate (length es) (Complete (m_object_path c))"
proof -
  let ?s = "run initial_manager evs"
  from listed_client_made_for_peer [OF listed]
  obtain c where c: "map_of (objects ?s) a = Some c"
    and mem: "(a, c) \<in> set (clients_made_for peer evs)"
    by blast
  from one obtain x where "clients_made_for peer evs = [x]"
    by (cases "clients_made_for peer evs") simp_all
  with mem have single: "clients_made_for peer evs = [(a, c)]"
    by simp
  from listed c have reg: "client_of_peer peer (m_object_path c) ?s"
    by (simp add: client_of_peer_def)
  note again = repeat_get_client [OF reg, of es]
  have "clients_made_for peer (evs @ map (GetClient peer) es) = clients_made_for peer evs"
    by (simp add: clients_made_for_def owners_append run_append again)
  with single get_client_calls_again [OF reg, of es] show ?thesis
    by simp
qed

lemma get_client_calls_first_client:
  assumes none: "clients_made_for peer evs = []" and es: "es \<noteq> []"
  shows "\<exists>a c. clients_made_for peer (evs @ map (GetClient peer) es) = [(a, c)]
           \<and> fst (get_client_calls peer es (run initial_manager evs))
               = replicate (length es) (Complete (m_object_path c))"
proof -
  let ?s = "run initial_manager evs"
  let ?n = "next_address ?s"
  from es obtain e es' where split: "es = e # es'" by (cases es) simp_all
  let ?c = "set_active_changed_callback
              (GeoClue2Client_new (client_path_of (m_next_client_id ?s + 1)) e)"
  let ?s1 = "snd (create_client_for_peer peer True e ?s)"
  have unlisted: "map_of (m_clients_by_peer ?s) peer = None"
  proof (rule ccontr)
    assume "map_of (m_clients_by_peer ?s) peer \<noteq> None"
    then obtain a where "map_of (m_clients_by_peer ?s) peer = Some a" by blast
    from listed_client_made_for_peer [OF this] none show False by simp
  qed
  then have new: "(if True then map_of (m_clients_by_peer ?s) peer else None) = None"
    by simp
  note facts = create_client_for_peer_new [OF heap_ok_run new, of e]
  have obj: "map_of (objects ?s1) ?n = Some ?c"
    by (rule facts(2))
  have reg: "client_of_peer peer (m_object_path ?c) ?s1"
    by (simp add: client_of_peer_def facts(3) obj)
  have first: "on_handle_get_client peer e ?s = (Complete (m_object_path ?c), ?s1)"
    by (simp add: on_handle_get_client_def case_prod_beta complete_with_path_def facts(1) obj)
  have results: "fst (get_client_calls peer es ?s) = replicate (length es) (Complete (m_object_path ?c))"
    using first get_client_calls_again [OF reg, of es'] by (simp add: split)
  note again = repeat_get_client [OF reg, of es']
  have made: "made_by (GetClient peer e) ?s = [(?n, peer)]"
    by (simp add: made_by_def first facts(5))
  have "run initial_manager (evs @ map (GetClient peer) (e # es')) = ?s1"
    by (simp add: run_append run_Cons first again)
  then have final: "run initial_manager (evs @ map (GetClient peer) es) = ?s1"
    by (simp only: split)
  have "owners initial_manager (evs @ map (GetClient peer) (e # es'))
          = owners initial_manager evs @ [(?n, peer)]"
    using made by (simp add: owners_append first again)
  then have own: "owners initial_manager (evs @ map (GetClient peer) es)
               = owners initial_manager evs @ [(?n, peer)]"
    by (simp only: split)
  have keys: "set (map fst (objects ?s1)) \<subseteq> insert ?n (set (map fst (objects ?s)))"
    by (rule keys_create_client_for_peer)
  have same: "(case x of (a, c) \<Rightarrow> (a, peer) \<in> set (owners initial_manager evs @ [(?n, peer)]))
                = (case x of (a, c) \<Rightarrow> a = ?n)"
    if x: "x \<in> set (objects ?s1)" for x
  proof -
    obtain a c where ac: "x = (a, c)" by (cases x)
    have "(a, peer) \<notin> set (owners initial_manager evs)" if "a \<noteq> ?n"
    proof
      assume owned: "(a, peer) \<in> set (owners initial_manager evs)"
      from x ac have "a \<in> set (map fst (objects ?s1))" by force
      with keys that have "a \<in> set (map fst (objects ?s))" by blast
      then obtain c' where "(a, c') \<in> set (objects ?s)" by auto
      with owned have "(a, c') \<in> set (clients_made_for peer evs)"
        by (simp add: clients_made_for_def)
      with none show False by simp
    qed
    with ac show ?thesis by auto
  qed
  have "clients_made_for peer (evs @ map (GetClient peer) es)
          = filter (\<lambda>(a, c). (a, peer) \<in> set (owners initial_manager evs @ [(?n, peer)]))
              (objects ?s1)"
    by (simp only: clients_made_for_def final own)
  also have "\<dots> = filter (\<lambda>(a, c). a = ?n) (objects ?s1)"
    by (rule filter_cong [OF refl]) (rule same)
  also have "\<dots> = [(?n, ?c)]"
  proof (rule one_entry [OF _ obj])
    from facts(7) show "distinct (map fst (objects ?s1))"
      by (simp add: heap_ok_def)
  qed
  finally show ?thesis
    using results by blast
qed

lemma get_client_calls_one_client:
  assumes "es \<noteq> []"
    and "clients_made_for peer evs = []
         \<or> (length (clients_made_for peer evs) = 1
            \<and> map_of (m_clients_by_peer (run initial_manager evs)) peer \<noteq> None)"
  shows "\<exists>a c. clients_made_for peer (evs @ map (GetClient peer) es) = [(a, c)]
           \<and> fst (get_client_calls peer es (run initial_manager evs))
               = replicate (length es) (Complete (m_object_path c))"
  using assms(2)
proof
  assume "clients_made_for peer evs = []"
  then show ?thesis using assms(1) by (rule get_client_calls_first_client)
next
  assume held: "length (clients_made_for peer evs) = 1
            \<and> map_of (m_clients_by_peer (run initial_manager evs)) peer \<noteq> None"
  then obtain a where "map_of (m_clients_by_peer (run initial_manager evs)) peer = Some a"
    by blast
  then show ?thesis using held [THEN conjunct1] by (rule get_client_calls_listed)
qed

text \<open>
  Claim C6, as amended.  From any state the manager reaches, back-to-back \<open>GetClient\<close>
  calls of a peer all return the object path of one and the same client, which the peer
  registry holds for that peer afterwards, and they allocate at most one client.  If
  the peer had no client before the calls, or had exactly one and the peer registry
  listed it, then exactly one client exists for the peer afterwards, and it is the
  client whose path the calls returned.
  Back-to-back \<open>CreateClient\<close> calls of a peer return one object path per call and
  allocate one client per call; up to \<open>2 ^ 32\<close> calls (the range of the \<open>guint\<close>
  client counter) the paths returned are all different, and each is registered
  afterwards for a live client with that path.
\<close>

theorem back_to_back_client_calls:
  "(es \<noteq> [] \<longrightarrow>
      (\<exists>path. fst (get_client_calls peer es (run initial_manager evs))
                 = replicate (length es) (Complete path)
         \<and> client_of_peer peer path (snd (get_client_calls peer es (run initial_manager evs)))
         \<and> next_address (snd (get_client_calls peer es (run initial_manager evs)))
             \<le> Suc (next_address (run initial_manager evs))))
   \<and> snd (get_client_calls peer es (run initial_manager evs))
       = run initial_manager (evs @ map (GetClient peer) es)
   \<and> (es \<noteq> []
        \<and> (clients_made_for peer evs = []
           \<or> (length (clients_made_for peer evs) = 1
              \<and> map_of (m_clients_by_peer (run initial_manager evs)) peer \<noteq> None)) \<longrightarrow>
        (\<exists>a c. clients_made_for peer (evs @ map (GetClient peer) es) = [(a, c)]
           \<and> fst (get_client_calls peer es (run initial_manager evs))
               = replicate (length es) (Complete (m_object_path c))))
   \<and> length (fst (create_client_calls peer es (run initial_manager evs))) = length es
   \<and> next_address (snd (create_client_calls peer es (run initial_manager evs)))
       = next_address (run initial_manager evs) + length es
   \<and> (length es \<le> 2 ^ 32 \<longrightarrow>
        distinct (fst (create_client_calls peer es (run initial_manager evs)))
        \<and> (\<forall>r \<in> set (fst (create_client_calls peer es (run initial_manager evs))).
              \<exists>path. r = Complete path
                \<and> registered_client path
                     (snd (create_client_calls peer es (run initial_manager evs)))))"
proof (intro conjI impI)
  let ?s = "run initial_manager evs"
  let ?f = "\<lambda>k. client_path_of (m_next_client_id ?s + of_nat (Suc k))"
  note ok = heap_ok_run [of evs]
  note res = create_client_calls_results [OF ok, of peer es]
  {
    assume "es \<noteq> []"
    with ok show "\<exists>path. fst (get_client_calls peer es ?s) = replicate (length es) (Complete path)
         \<and> client_of_peer peer path (snd (get_client_calls peer es ?s))
         \<and> next_address (snd (get_client_calls peer es ?s)) \<le> Suc (next_address ?s)"
      by (rule get_client_calls_single_client)
  }
  show "snd (get_client_calls peer es ?s) = run initial_manager (evs @ map (GetClient peer) es)"
    by (simp only: get_client_calls_run run_append)
  {
    assume "es \<noteq> []
        \<and> (clients_made_for peer evs = []
           \<or> (length (clients_made_for peer evs) = 1
              \<and> map_of (m_clients_by_peer ?s) peer \<noteq> None))"
    then have "es \<noteq> []"
      and "clients_made_for peer evs = []
           \<or> (length (clients_made_for peer evs) = 1
              \<and> map_of (m_clients_by_peer ?s) peer \<noteq> None)"
      by blast+
    then show "\<exists>a c. clients_made_for peer (evs @ map (GetClient peer) es) = [(a, c)]
           \<and> fst (get_client_calls peer es ?s)
               = replicate (length es) (Complete (m_object_path c))"
      by (rule get_client_calls_one_client)
  }
  show "length (fst (create_client_calls peer es ?s)) = length es"
    by (simp add: res)
  show "next_address (snd (create_client_calls peer es ?s)) = next_address ?s + length es"
    by (simp add: res)
  {
    assume len: "length es \<le> 2 ^ 32"
    show "distinct (fst (create_client_calls peer es ?s))"
      by (simp only: res client_paths_distinct [OF len])
  }
  assume len: "length es \<le> 2 ^ 32"
  from create_client_calls_registered [OF ok len, of "{}" peer]
  have reg: "\<forall>Q \<in> ?f ` {..<length es}. registered_client Q (snd (create_client_calls peer es ?s))"
    by simp
  show "\<forall>r \<in> set (fst (create_client_calls peer es ?s)).
          \<exists>path. r = Complete path
            \<and> registered_client path (snd (create_client_calls peer es ?s))"
  proof
    fix r assume "r \<in> set (fst (create_client_calls peer es ?s))"
    then have "r \<in> set (map (\<lambda>k. Complete (?f k)) [0..<length es])"
      by (simp only: res)
    then obtain k where "k < length es" and "r = Complete (?f k)"
      by auto
    with reg show "\<exists>path. r = Complete path
            \<and> registered_client path (snd (create_client_calls peer es ?s))"
      by blast
  qed
qed

theorem back_to_back_client_calls_witness:
  "[True, True] \<noteq> [] \<and> length [True, True] \<le> 2 ^ 32
   \<and> clients_made_for '':1.7'' [CreateClient '':1.8'' True] = []
   \<and> fst (get_client_calls '':1.7'' [True, True] (run initial_manager [CreateClient '':1.8'' True]))
       = [Complete ''/org/freedesktop/GeoClue2/Client/2'',
          Complete ''/org/freedesktop/GeoClue2/Client/2'']
   \<and> length (clients_made_for '':1.7''
         [CreateClient '':1.8'' True, GetClient '':1.7'' True, GetClient '':1.7'' True]) = 1
   \<and> fst (create_client_calls '':1.7'' [True, True]
            (run initial_manager [CreateClient '':1.8'' True]))
       = [Complete ''/org/freedesktop/GeoClue2/Client/2'',
          Complete ''/org/freedesktop/GeoClue2/Client/3'']
   \<and> distinct (fst (create_client_calls '':1.7'' [True, True]
                      (run initial_manager [CreateClient '':1.8'' True])))
   \<and> next_address (snd (create_client_calls '':1.7'' [True, True]
                           (run initial_manager [CreateClient '':1.8'' True])))
       = next_address (run initial_manager [CreateClient '':1.8'' True]) + length [True, True]"
proof -
  let ?s = "run initial_manager [CreateClient '':1.8'' True]"
  have g: "fst (get_client_calls '':1.7'' [True, True] ?s)
             = [Complete ''/org/freedesktop/GeoClue2/Client/2'',
                Complete ''/org/freedesktop/GeoClue2/Client/2'']"
    by code_simp
  have c: "fst (create_client_calls '':1.7'' [True, True] ?s)
             = [Complete ''/org/freedesktop/GeoClue2/Client/2'',
                Complete ''/org/freedesktop/GeoClue2/Client/3'']"
    by code_simp
  have none: "clients_made_for '':1.7'' [CreateClient '':1.8'' True] = []"
    by code_simp
  have ne: "[True, True] \<noteq> []"
    by simp
  have len: "length [True, True] \<le> (2::nat) ^ 32"
    by simp
  note inst = back_to_back_client_calls
    [of "[True, True]" "'':1.7''" "[CreateClient '':1.8'' True]"]
  from inst
  have "(length [True, True] \<le> (2::nat) ^ 32 \<longrightarrow>
           distinct (fst (create_client_calls '':1.7'' [True, True] ?s)))
          \<and> next_address (snd (create_client_calls '':1.7'' [True, True] ?s))
              = next_address ?s + length [True, True]"
    by blast
  with len have d: "distinct (fst (create_client_calls '':1.7'' [True, True] ?s))"
    and n: "next_address (snd (create_client_calls '':1.7'' [True, True] ?s))
           = next_address ?s + length [True, True]"
    by blast+
  from inst ne none
  have "\<exists>a c. clients_made_for '':1.7''
                 ([CreateClient '':1.8'' True] @ map (GetClient '':1.7'') [True, True]) = [(a, c)]"
    by blast
  then have one: "length (clients_made_for '':1.7''
         [CreateClient '':1.8'' True, GetClient '':1.7'' True, GetClient '':1.7'' True]) = 1"
    by auto
  from g c len ne none one d n show ?thesis
    by (simp only: simp_thms list.simps)
qed

text \<open>
  Claim C6 as stated fails in two ways.  A peer that has called \<open>CreateClient\<close> twice
  has two clients; its \<open>GetClient\<close> calls then return the newer one and leave both
  alive, so two clients exist for the peer afterwards, not one.  And with more than
  \<open>2 ^ 32\<close> back-to-back \<open>CreateClient\<close> calls the client counter wraps: call number
  \<open>2 ^ 32 + 1\<close> returns the object path of the first call again, also when the export of
  its client under that path fails because the first client still has it.
\<close>

theorem back_to_back_calls_counterexample:
  "fst (get_client_calls '':1.7'' [True, True]
         (run initial_manager [CreateClient '':1.7'' True, CreateClient '':1.7'' True]))
     = [Complete ''/org/freedesktop/GeoClue2/Client/2'',
        Complete ''/org/freedesktop/GeoClue2/Client/2'']
   \<and> length (clients_made_for '':1.7''
         [CreateClient '':1.7'' True, CreateClient '':1.7'' True,
          GetClient '':1.7'' True, GetClient '':1.7'' True]) = 2
   \<and> \<not> distinct (fst (create_client_calls '':1.7'' (replicate (2 ^ 32) True @ [False])
                        (run initial_manager [])))"
proof (intro conjI)
  show "fst (get_client_calls '':1.7'' [True, True]
         (run initial_manager [CreateClient '':1.7'' True, CreateClient '':1.7'' True]))
     = [Complete ''/org/freedesktop/GeoClue2/Client/2'',
        Complete ''/org/freedesktop/GeoClue2/Client/2'']"
    by code_simp
  show "length (clients_made_for '':1.7''
         [CreateClient '':1.7'' True, CreateClient '':1.7'' True,
          GetClient '':1.7'' True, GetClient '':1.7'' True]) = 2"
    by code_simp
  let ?s = "run initial_manager []"
  have wrap: "\<not> distinct (fst (create_client_calls '':1.7'' (replicate N True @ [False]) ?s))"
    if "2 ^ 32 \<le> N" for N
  proof -
    have "length (replicate N True @ [False]) = Suc N"
      by simp
    with create_client_calls_results [OF heap_ok_run, of "'':1.7''" "replicate N True @ [False]" "[]"]
    have "fst (create_client_calls '':1.7'' (replicate N True @ [False]) ?s)
            = map (\<lambda>k. Complete (client_path_of (m_next_client_id ?s + of_nat (Suc k))))
                [0..<Suc N]"
      by (simp only:)
    moreover from that have "2 ^ 32 < Suc N"
      by simp
    then have "\<not> distinct (map (\<lambda>k. Complete (client_path_of (m_next_client_id ?s + of_nat (Suc k))))
                          [0..<Suc N])"
      by (rule client_paths_repeat)
    ultimately show ?thesis
      by (simp only: not_False_eq_True)
  qed
  show "\<not> distinct (fst (create_client_calls '':1.7'' (replicate (2 ^ 32) True @ [False]) ?s))"
    by (rule wrap) (rule order_refl)
qed

subsection \<open>The InUse property\<close>

lemma in_use_ok_frame [simp]:
  "in_use_ok (s\<lparr>objects := xs\<rparr>) = in_use_ok s"
  "in_use_ok (s\<lparr>next_address := n\<rparr>) = in_use_ok s"
  "in_use_ok (s\<lparr>m_clients_by_peer := ps\<rparr>) = in_use_ok s"
  "in_use_ok (s\<lparr>m_clients_by_path := ps\<rparr>) = in_use_ok s"
  "in_use_ok (s\<lparr>m_next_client_id := i\<rparr>) = in_use_ok s"
  "in_use_ok (s\<lparr>m_next_location_id := i\<rparr>) = in_use_ok s"
  "in_use_ok (s\<lparr>m_locations := ls\<rparr>) = in_use_ok s"
  "in_use_ok (s\<lparr>m_grace_timeout_id := i\<rparr>) = in_use_ok s"
  "in_use_ok (s\<lparr>effects := es\<rparr>) = in_use_ok s"
  by (simp_all add: in_use_ok_def split: option.splits)

lemma in_use_ok_emit [simp]: "in_use_ok (emit es s) = in_use_ok s"
  by (simp add: emit_def)

lemma in_use_ok_remove_grace_timeout [simp]:
  "in_use_ok (remove_grace_timeout s) = in_use_ok s"
  by (simp add: remove_grace_timeout_def)

lemma in_use_ok_update_in_use_property:
  "manager_skeleton s \<noteq> None \<Longrightarrow> in_use_ok (update_in_use_property s)"
  by (auto simp add: in_use_ok_def update_in_use_property_def)

lemma skeleton_if_in_use_ok: "in_use_ok s \<Longrightarrow> manager_skeleton s \<noteq> None"
  by (auto simp add: in_use_ok_def split: option.splits)

lemma in_use_ok_update_in_use_property' :
  "in_use_ok s \<Longrightarrow> in_use_ok (update_in_use_property s)"
  by (simp add: in_use_ok_update_in_use_property skeleton_if_in_use_ok)

lemma in_use_ok_client_became_active:
  assumes "in_use_ok s"
  shows "in_use_ok (client_became_active s)"
proof -
  let ?s1 = "remove_grace_timeout s"
  let ?s2 = "?s1\<lparr>m_active_clients := m_active_clients ?s1 + 1\<rparr>"
  from assms have "manager_skeleton ?s2 \<noteq> None"
    by (simp add: remove_grace_timeout_def emit_def skeleton_if_in_use_ok)
  then have "in_use_ok (update_in_use_property ?s2)"
    by (rule in_use_ok_update_in_use_property)
  then show ?thesis
    by (simp add: client_became_active_def Let_def)
qed

lemma in_use_ok_client_became_inactive:
  assumes "in_use_ok s"
  shows "in_use_ok (client_became_inactive s)"
proof (cases "m_active_clients s = 0")
  case True
  with assms show ?thesis by (simp add: client_became_inactive_def)
next
  case False
  let ?s1 = "s\<lparr>m_active_clients := m_active_clients s - 1\<rparr>"
  from assms have "manager_skeleton ?s1 \<noteq> None"
    by (simp add: skeleton_if_in_use_ok)
  then have "in_use_ok (update_in_use_property ?s1)"
    by (rule in_use_ok_update_in_use_property)
  with False show ?thesis
    by (simp add: client_became_inactive_def Let_def)
qed

lemma in_use_ok_on_grace_timeout: "in_use_ok s \<Longrightarrow> in_use_ok (on_grace_timeout s)"
  by (simp add: on_grace_timeout_def Let_def)

lemma in_use_ok_deliver: "in_use_ok s \<Longrightarrow> in_use_ok (deliver p sg s)"
  by (cases sg) (simp_all add: in_use_ok_client_became_active in_use_ok_client_became_inactive)

lemma in_use_ok_fold_deliver: "in_use_ok s \<Longrightarrow> in_use_ok (fold (deliver p) sigs s)"
  by (induction sigs arbitrary: s) (simp_all add: in_use_ok_deliver)

lemma in_use_ok_destroy_client: "in_use_ok s \<Longrightarrow> in_use_ok (destroy_client a s)"
  by (simp add: destroy_client_def in_use_ok_fold_deliver split: option.splits)

lemma in_use_ok_release: "in_use_ok s \<Longrightarrow> in_use_ok (release a s)"
  by (simp add: release_def in_use_ok_destroy_client)

lemma in_use_ok_create_client_for_peer:
  "in_use_ok s \<Longrightarrow> in_use_ok (snd (create_client_for_peer peer reuse e s))"
  by (simp add: create_client_for_peer_stages store_by_path_def store_by_peer_def
      alloc_client_def in_use_ok_release split: option.splits)

lemma in_use_ok_remove_client: "in_use_ok s \<Longrightarrow> in_use_ok (remove_client path s)"
  by (simp add: remove_client_def Let_def in_use_ok_release in_use_ok_update_in_use_property'
      split: option.splits)

lemma in_use_ok_fold_remove_client: "in_use_ok s \<Longrightarrow> in_use_ok (fold remove_client ps s)"
  by (induction ps arbitrary: s) (simp_all add: in_use_ok_remove_client)

lemma in_use_ok_notify_client: "in_use_ok s \<Longrightarrow> in_use_ok (notify_client lp pair s)"
  by (simp add: notify_client_def case_prod_beta in_use_ok_fold_deliver split: option.splits)

lemma in_use_ok_fold_notify_client:
  "in_use_ok s \<Longrightarrow> in_use_ok (fold (notify_client lp) ps s)"
  by (induction ps arbitrary: s) (simp_all add: in_use_ok_notify_client)

lemma in_use_ok_handle_position_update:
  "in_use_ok s \<Longrightarrow> in_use_ok (handle_position_update pos s)"
  by (simp add: handle_position_update_def Let_def in_use_ok_fold_notify_client)

lemma in_use_ok_client_method: "in_use_ok s \<Longrightarrow> in_use_ok (client_method h path s)"
  by (simp add: client_method_def in_use_ok_fold_deliver split: option.splits prod.splits)

lemma in_use_ok_step: "in_use_ok s \<Longrightarrow> in_use_ok (step e s)"
  by (cases e)
     (simp_all add: on_handle_get_client_def on_handle_create_client_def case_prod_beta
       on_handle_delete_client_def on_handle_add_agent_def on_peer_vanished_def
       in_use_ok_create_client_for_peer in_use_ok_remove_client in_use_ok_fold_remove_client
       in_use_ok_handle_position_update in_use_ok_client_method in_use_ok_on_grace_timeout)

lemma in_use_ok_run: "in_use_ok (run initial_manager evs)"
proof (induction evs rule: rev_induct)
  case Nil
  show ?case
    by (simp add: run_Nil in_use_ok_def initial_manager_def set_backend_def
        GeoClue2Manager_new_def)
next
  case (snoc e evs)
  then show ?case
    by (simp add: run_snoc in_use_ok_step)
qed

subsection \<open>The active-client counter\<close>

lemma active_count_le: "active_count s \<le> length (objects s)"
  by (simp add: active_count_def)

lemma active_filter_update:
  "map_of xs a = Some c \<Longrightarrow>
     length (filter (\<lambda>(a, c). m_active c) (AList.update a c' xs)) + (if m_active c then 1 else 0)
       = length (filter (\<lambda>(a, c). m_active c) xs) + (if m_active c' then 1 else 0)"
  by (induction xs) (auto split: if_splits)

lemma active_filter_delete:
  "distinct (map fst xs) \<Longrightarrow> map_of xs a = Some c \<Longrightarrow>
     length (filter (\<lambda>(a, c). m_active c) (AList.delete a xs)) + (if m_active c then 1 else 0)
       = length (filter (\<lambda>(a, c). m_active c) xs)"
proof (induction xs)
  case Nil
  then show ?case by simp
next
  case (Cons x xs)
  show ?case
  proof (cases "fst x = a")
    case True
    with Cons.prems have "a \<notin> fst ` set xs" and "snd x = c" by auto
    with True show ?thesis
      by (cases x) simp
  next
    case False
    with Cons show ?thesis
      by (cases x) simp
  qed
qed

lemma count_ok_frame [simp]:
  "count_ok (s\<lparr>next_address := n\<rparr>) = count_ok s"
  "count_ok (s\<lparr>m_clients_by_peer := ps\<rparr>) = count_ok s"
  "count_ok (s\<lparr>m_clients_by_path := ps\<rparr>) = count_ok s"
  "count_ok (s\<lparr>m_next_client_id := i\<rparr>) = count_ok s"
  "count_ok (s\<lparr>m_next_location_id := i\<rparr>) = count_ok s"
  "count_ok (s\<lparr>m_locations := ls\<rparr>) = count_ok s"
  "count_ok (s\<lparr>m_grace_timeout_id := i\<rparr>) = count_ok s"
  "count_ok (s\<lparr>effects := es\<rparr>) = count_ok s"
  "count_ok (s\<lparr>manager_skeleton := sk\<rparr>) = count_ok s"
  by (simp_all add: count_ok_def active_count_def)

lemma count_ok_emit [simp]: "count_ok (emit es s) = count_ok s"
  by (simp add: emit_def)

lemma count_ok_remove_grace_timeout [simp]: "count_ok (remove_grace_timeout s) = count_ok s"
  by (simp add: remove_grace_timeout_def)

lemma count_ok_update_in_use_property [simp]: "count_ok (update_in_use_property s) = count_ok s"
  by (simp add: update_in_use_property_def split: option.splits)

lemma count_ok_on_grace_timeout [simp]: "count_ok (on_grace_timeout s) = count_ok s"
  by (simp add: on_grace_timeout_def Let_def)

lemma count_ok_with_counter:
  "count_ok (s\<lparr>m_active_clients := n\<rparr>) = (unat n = active_count s)"
  by (simp add: count_ok_def active_count_def)

lemma count_ok_with_objects:
  "count_ok (s\<lparr>objects := xs\<rparr>)
     = (unat (m_active_clients s) = length (filter (\<lambda>(a, c). m_active c) xs))"
  by (simp add: count_ok_def active_count_def)

lemma counter_remove_grace_timeout [simp]:
  "m_active_clients (remove_grace_timeout s) = m_active_clients s"
  "active_count (remove_grace_timeout s) = active_count s"
  by (simp_all add: remove_grace_timeout_def emit_def active_count_def)

lemma count_ok_client_became_active:
  assumes "unat (m_active_clients s) + 1 = active_count s" and "active_count s < 2 ^ 32"
  shows "count_ok (client_became_active s)"
proof -
  from assms have "unat (m_active_clients s) + 1 < 2 ^ 32" by simp
  then have "unat (m_active_clients s + 1) = unat (m_active_clients s) + 1"
    by (simp add: unat_word_ariths)
  with assms(1) show ?thesis
    by (simp add: client_became_active_def Let_def count_ok_with_counter)
qed

lemma count_ok_client_became_inactive:
  assumes "unat (m_active_clients s) = active_count s + 1"
  shows "count_ok (client_became_inactive s)"
proof -
  from assms have nz: "m_active_clients s \<noteq> 0"
    by (auto simp add: unat_eq_zero)
  then have "unat (m_active_clients s - 1) = unat (m_active_clients s) - 1"
    by (rule unat_minus_one)
  with assms nz show ?thesis
    by (simp add: client_became_inactive_def Let_def count_ok_with_counter)
qed

lemma destructor_signals:
  "m_active_changed_callback c \<Longrightarrow>
     snd (GeoClue2Client_destructor c) = (if m_active c then [ActiveChangedCallback False] else [])"
  by (simp add: GeoClue2Client_destructor_def set_active_def Let_def case_prod_beta
      split: option.splits)

lemma callback_of_live_object:
  assumes "heap_ok s" and "map_of (objects s) a = Some c"
  shows "m_active_changed_callback c"
proof -
  from assms(2) have "c \<in> set (map snd (objects s))"
    by (force dest: map_of_SomeD)
  with assms(1) show ?thesis
    by (simp add: heap_ok_def del: set_map)
qed

lemma count_ok_destroy_client:
  assumes ok: "heap_ok s" and cnt: "count_ok s"
  shows "count_ok (destroy_client a s)"
proof (cases "map_of (objects s) a")
  case None
  with cnt show ?thesis by (simp add: destroy_client_def)
next
  case (Some c)
  let ?s1 = "s\<lparr>objects := AList.delete a (objects s)\<rparr>"
  from ok have d: "distinct (map fst (objects s))" by (simp add: heap_ok_def)
  note del = active_filter_delete [OF d Some]
  note sigs = destructor_signals [OF callback_of_live_object [OF ok Some]]
  show ?thesis
  proof (cases "m_active c")
    case True
    from del cnt True have "unat (m_active_clients ?s1) = active_count ?s1 + 1"
      by (simp add: count_ok_def active_count_def)
    then have "count_ok (client_became_inactive ?s1)"
      by (rule count_ok_client_became_inactive)
    with Some True show ?thesis
      by (simp add: destroy_client_def sigs)
  next
    case False
    from del cnt False have "count_ok ?s1"
      by (simp add: count_ok_def active_count_def)
    with Some False show ?thesis
      by (simp add: destroy_client_def sigs)
  qed
qed

lemma count_ok_release: "heap_ok s \<Longrightarrow> count_ok s \<Longrightarrow> count_ok (release a s)"
  by (simp add: release_def count_ok_destroy_client)

lemma count_ok_alloc_client [simp]: "count_ok (alloc_client q e s) = count_ok s"
  by (simp add: alloc_client_def count_ok_def active_count_def set_active_changed_callback_def
      GeoClue2Client_new_def)

lemma heap_ok_set_by_peer:
  assumes "heap_ok s" and "a \<in> set (map fst (objects s))"
  shows "heap_ok (s\<lparr>m_clients_by_peer := AList.update peer a (m_clients_by_peer s)\<rparr>)"
  using assms set_map_snd_update [of peer a "m_clients_by_peer s"]
  unfolding heap_ok_def by (simp del: set_map) blast

lemma heap_ok_set_by_path:
  assumes "heap_ok s" and "a \<in> set (map fst (objects s))"
  shows "heap_ok (s\<lparr>m_clients_by_path := AList.update path a (m_clients_by_path s)\<rparr>)"
  using assms set_map_snd_update [of path a "m_clients_by_path s"]
  unfolding heap_ok_def by (simp del: set_map) blast

lemma count_ok_store_by_peer:
  assumes "heap_ok s" and "a \<in> set (map fst (objects s))" and "count_ok s"
  shows "count_ok (store_by_peer peer a s)"
  using heap_ok_set_by_peer [OF assms(1,2), of peer] assms(3)
  by (simp add: store_by_peer_def count_ok_release split: option.splits)

lemma count_ok_store_by_path:
  assumes "heap_ok s" and "a \<in> set (map fst (objects s))" and "count_ok s"
  shows "count_ok (store_by_path path a s)"
  using heap_ok_set_by_path [OF assms(1,2), of path] assms(3)
  by (simp add: store_by_path_def count_ok_release split: option.splits)

lemma count_ok_create_client_for_peer:
  assumes ok: "heap_ok s" and cnt: "count_ok s"
  shows "count_ok (snd (create_client_for_peer peer reuse e s))"
proof (cases "(if reuse then map_of (m_clients_by_peer s) peer else None)")
  case (Some a)
  with cnt show ?thesis by (simp add: create_client_for_peer_stages)
next
  case None
  let ?q = "client_path_of (m_next_client_id s + 1)"
  let ?a = "next_address s"
  let ?s1 = "alloc_client ?q e s"
  let ?s3 = "store_by_peer peer ?a ?s1"
  let ?s5 = "store_by_path ?q ?a ?s3"
  have o1: "map_of (objects ?s1) ?a
              = Some (set_active_changed_callback (GeoClue2Client_new ?q e))"
    by (rule map_of_objects_alloc_client_new [OF ok])
  have o3: "map_of (objects ?s3) ?a = map_of (objects ?s1) ?a"
    by (rule map_of_objects_store_by_peer) simp
  have h1: "heap_ok ?s1" by (rule heap_ok_alloc_client [OF ok])
  from o1 have k1: "?a \<in> set (map fst (objects ?s1))"
    by (metis domI dom_map_of_conv_image_fst set_map)
  from o3 o1 have k3: "?a \<in> set (map fst (objects ?s3))"
    by (metis domI dom_map_of_conv_image_fst set_map)
  have c1: "count_ok ?s1" using cnt by simp
  have h3: "heap_ok ?s3" by (rule heap_ok_store_by_peer [OF h1 k1])
  have c3: "count_ok ?s3" by (rule count_ok_store_by_peer [OF h1 k1 c1])
  have "count_ok ?s5" by (rule count_ok_store_by_path [OF h3 k3 c3])
  with None show ?thesis
    by (simp add: create_client_for_peer_stages)
qed

lemma count_ok_remove_client:
  assumes ok: "heap_ok s" and cnt: "count_ok s"
  shows "count_ok (remove_client path s)"
proof (cases "map_of (m_clients_by_path s) path")
  case None
  with cnt show ?thesis by (simp add: remove_client_def)
next
  case (Some a)
  let ?s1 = "s\<lparr>m_clients_by_path := AList.delete path (m_clients_by_path s)\<rparr>"
  let ?s2 = "?s1\<lparr>m_clients_by_peer := erase_first_value a (m_clients_by_peer ?s1)\<rparr>"
  have "heap_ok ?s1"
    using ok set_map_snd_delete [of path "m_clients_by_path s"]
    by (intro heap_ok_shrink_by_path) simp_all
  then have "heap_ok ?s2"
    using set_map_snd_erase_first_value [of a "m_clients_by_peer ?s1"]
    by (intro heap_ok_shrink_by_peer) simp_all
  then have "heap_ok (update_in_use_property ?s2)"
    by (simp add: heap_ok_registry_part [OF registry_part_update_in_use])
  moreover from cnt have "count_ok (update_in_use_property ?s2)" by simp
  ultimately have "count_ok (release a (update_in_use_property ?s2))"
    by (rule count_ok_release)
  with Some show ?thesis
    by (simp add: remove_client_def Let_def)
qed

lemma count_ok_fold_remove_client:
  "heap_ok s \<Longrightarrow> count_ok s \<Longrightarrow> count_ok (fold remove_client ps s)"
  by (induction ps arbitrary: s) (simp_all add: count_ok_remove_client heap_ok_remove_client)

lemma count_ok_notify_client:
  assumes cnt: "count_ok s"
  shows "count_ok (notify_client lp pair s)"
proof (cases "map_of (objects s) (snd pair)")
  case None
  with cnt show ?thesis by (simp add: notify_client_def)
next
  case (Some c)
  have act: "m_active (fst (notify_location_update lp c)) = m_active c"
    by (simp add: notify_location_update_def Let_def split: option.splits)
  from active_filter_update [OF Some, of "fst (notify_location_update lp c)"] act cnt
  have upd: "count_ok (s\<lparr>objects := AList.update (snd pair) (fst (notify_location_update lp c))
                                       (objects s)\<rparr>)"
    by (simp add: count_ok_def active_count_def)
  have "count_ok (fold (deliver p) (snd (notify_location_update lp c)) t) = count_ok t" for p t
    by (simp add: notify_location_update_def Let_def split: option.splits)
  with upd Some cnt show ?thesis
    by (simp add: notify_client_def case_prod_beta)
qed

lemma count_ok_fold_notify_client:
  "count_ok s \<Longrightarrow> count_ok (fold (notify_client lp) ps s)"
  by (induction ps arbitrary: s) (simp_all add: count_ok_notify_client)

lemma count_ok_handle_position_update:
  "count_ok s \<Longrightarrow> count_ok (handle_position_update pos s)"
  by (simp add: handle_position_update_def Let_def count_ok_fold_notify_client)

lemma on_handle_start_cases:
  "m_active_changed_callback c \<Longrightarrow>
     on_handle_start (Some c)
       = (if m_active c then (Some c, [CompleteStart])
          else (Some (activated True c), [ActiveChangedCallback True, CompleteStart]))"
  by (simp add: on_handle_start_def set_active_def activated_def Let_def split: option.splits)

lemma on_handle_stop_cases:
  "m_active_changed_callback c \<Longrightarrow>
     on_handle_stop (Some c)
       = (if \<not> m_active c then (Some c, [CompleteStop])
          else (Some (activated False c), [ActiveChangedCallback False, CompleteStop]))"
  by (simp add: on_handle_stop_def set_active_def activated_def Let_def split: option.splits)

lemma m_active_activated [simp]: "m_active (activated b c) = b"
  by (simp add: activated_def)

lemma count_ok_client_start:
  assumes ok: "heap_ok s" and cnt: "count_ok s"
    and bound: "active_count (client_method on_handle_start path s) < 2 ^ 32"
  shows "count_ok (client_method on_handle_start path s)"
proof (cases "exported_client path s")
  case None
  with cnt show ?thesis by (simp add: client_method_def)
next
  case (Some ac)
  obtain a c where ac: "ac = (a, c)" by (cases ac)
  note look = exported_client_lookup [OF ok Some [unfolded ac]]
  note cb = callback_of_live_object [OF ok look(1)]
  show ?thesis
  proof (cases "m_active c")
    case True
    from active_filter_update [OF look(1), of c] cnt
    have "count_ok (s\<lparr>objects := AList.update a c (objects s)\<rparr>)"
      by (simp add: count_ok_def active_count_def)
    with Some ac True show ?thesis
      by (simp add: client_method_def on_handle_start_cases [OF cb])
  next
    case False
    let ?s1 = "s\<lparr>objects := AList.update a (activated True c) (objects s)\<rparr>"
    have fin: "client_method on_handle_start path s
                 = emit [ClientSignal path CompleteStart] (client_became_active ?s1)"
      using Some ac False by (simp add: client_method_def on_handle_start_cases [OF cb])
    have "registry_part (emit [ClientSignal path CompleteStart] (client_became_active ?s1))
            = registry_part ?s1"
      by simp
    from registry_partD [OF this]
    have "objects (client_method on_handle_start path s) = objects ?s1"
      by (simp only: fin)
    then have "active_count (client_method on_handle_start path s) = active_count ?s1"
      by (simp add: active_count_def)
    with bound have small: "active_count ?s1 < 2 ^ 32" by simp
    from active_filter_update [OF look(1), of "activated True c"] False
    have "active_count ?s1 = active_count s + 1"
      by (simp add: active_count_def)
    with cnt have "unat (m_active_clients ?s1) + 1 = active_count ?s1"
      by (simp add: count_ok_def)
    then have "count_ok (client_became_active ?s1)"
      using small by (rule count_ok_client_became_active)
    then show ?thesis
      by (simp add: fin)
  qed
qed

lemma count_ok_client_stop:
  assumes ok: "heap_ok s" and cnt: "count_ok s"
  shows "count_ok (client_method on_handle_stop path s)"
proof (cases "exported_client path s")
  case None
  with cnt show ?thesis by (simp add: client_method_def)
next
  case (Some ac)
  obtain a c where ac: "ac = (a, c)" by (cases ac)
  note look = exported_client_lookup [OF ok Some [unfolded ac]]
  note cb = callback_of_live_object [OF ok look(1)]
  show ?thesis
  proof (cases "m_active c")
    case False
    from active_filter_update [OF look(1), of c] cnt
    have "count_ok (s\<lparr>objects := AList.update a c (objects s)\<rparr>)"
      by (simp add: count_ok_def active_count_def)
    with Some ac False show ?thesis
      by (simp add: client_method_def on_handle_stop_cases [OF cb])
  next
    case True
    let ?s1 = "s\<lparr>objects := AList.update a (activated False c) (objects s)\<rparr>"
    from active_filter_update [OF look(1), of "activated False c"] True
    have "active_count ?s1 + 1 = active_count s"
      by (simp add: active_count_def)
    with cnt have "unat (m_active_clients ?s1) = active_count ?s1 + 1"
      by (simp add: count_ok_def)
    then have "count_ok (client_became_inactive ?s1)"
      by (rule count_ok_client_became_inactive)
    with Some ac True show ?thesis
      by (simp add: client_method_def on_handle_stop_cases [OF cb])
  qed
qed

lemma count_ok_step:
  assumes "heap_ok s" and "count_ok s" and "active_count (step e s) < 2 ^ 32"
  shows "count_ok (step e s)"
  using assms
  by (cases e)
     (simp_all add: on_handle_get_client_def on_handle_create_client_def case_prod_beta
       on_handle_delete_client_def on_handle_add_agent_def on_peer_vanished_def
       count_ok_create_client_for_peer count_ok_remove_client count_ok_fold_remove_client
       count_ok_handle_position_update count_ok_client_start count_ok_client_stop)

lemma count_ok_run:
  "\<forall>k \<le> length evs. active_count (run initial_manager (take k evs)) < 2 ^ 32 \<Longrightarrow>
     count_ok (run initial_manager evs)"
proof (induction evs rule: rev_induct)
  case Nil
  show ?case
    by (simp add: run_Nil count_ok_def active_count_def initial_manager_def set_backend_def
        GeoClue2Manager_new_def)
next
  case (snoc e evs)
  let ?s = "run initial_manager evs"
  have "\<forall>k \<le> length evs. active_count (run initial_manager (take k evs)) < 2 ^ 32"
  proof (intro allI impI)
    fix k assume k: "k \<le> length evs"
    then have "k \<le> length (evs @ [e])" by simp
    with snoc.prems have "active_count (run initial_manager (take k (evs @ [e]))) < 2 ^ 32"
      by blast
    with k show "active_count (run initial_manager (take k evs)) < 2 ^ 32"
      by simp
  qed
  then have cnt: "count_ok ?s" by (rule snoc.IH)
  from snoc.prems have "active_count (run initial_manager (take (length (evs @ [e])) (evs @ [e]))) < 2 ^ 32"
    by blast
  then have "active_count (step e ?s) < 2 ^ 32"
    by (simp add: run_snoc)
  with heap_ok_run cnt have "count_ok (step e ?s)"
    by (rule count_ok_step)
  then show ?case
    by (simp add: run_snoc)
qed

text \<open>
  Claim C5, as amended.  In every state the manager reaches, the \<open>InUse\<close> property
  equals (active-client count > 0); and as long as the number of active clients has
  stayed below \<open>2 ^ 32\<close> (the range of the \<open>guint\<close> counter) in every state of the run
  so far, this one included, the active-client count equals the number of live clients
  whose \<open>Active\<close> flag is set.
\<close>

theorem in_use_and_active_count:
  "(\<exists>sk. manager_skeleton (run initial_manager evs) = Some sk
        \<and> in_use sk = (0 < m_active_clients (run initial_manager evs)))
   \<and> ((\<forall>k \<le> length evs. active_count (run initial_manager (take k evs)) < 2 ^ 32) \<longrightarrow>
        unat (m_active_clients (run initial_manager evs)) = active_count (run initial_manager evs))"
proof
  from in_use_ok_run [of evs]
  show "\<exists>sk. manager_skeleton (run initial_manager evs) = Some sk
          \<and> in_use sk = (0 < m_active_clients (run initial_manager evs))"
    by (auto simp add: in_use_ok_def split: option.splits)
  show "(\<forall>k \<le> length evs. active_count (run initial_manager (take k evs)) < 2 ^ 32) \<longrightarrow>
          unat (m_active_clients (run initial_manager evs))
            = active_count (run initial_manager evs)"
    using count_ok_run [of evs] by (simp add: count_ok_def)
qed

theorem in_use_and_active_count_witness:
  "active_count (run initial_manager []) < 2 ^ 32
   \<and> active_count (run initial_manager [GetClient '':1.7'' True]) < 2 ^ 32
   \<and> active_count (run initial_manager
        [GetClient '':1.7'' True, ClientStart ''/org/freedesktop/GeoClue2/Client/1'']) < 2 ^ 32
   \<and> active_count (run initial_manager
        [GetClient '':1.7'' True, ClientStart ''/org/freedesktop/GeoClue2/Client/1'',
         CreateClient '':1.8'' True]) < 2 ^ 32
   \<and> manager_skeleton (run initial_manager
        [GetClient '':1.7'' True, ClientStart ''/org/freedesktop/GeoClue2/Client/1'',
         CreateClient '':1.8'' True])
       = Some \<lparr> in_use = True, available_accuracy_level = 8 \<rparr>
   \<and> unat (m_active_clients (run initial_manager
        [GetClient '':1.7'' True, ClientStart ''/org/freedesktop/GeoClue2/Client/1'',
         CreateClient '':1.8'' True])) = 1
   \<and> active_count (run initial_manager
        [GetClient '':1.7'' True, ClientStart ''/org/freedesktop/GeoClue2/Client/1'',
         CreateClient '':1.8'' True])
       = unat (m_active_clients (run initial_manager
        [GetClient '':1.7'' True, ClientStart ''/org/freedesktop/GeoClue2/Client/1'',
         CreateClient '':1.8'' True]))"
proof -
  let ?e1 = "GetClient '':1.7'' True"
  let ?e2 = "ClientStart ''/org/freedesktop/GeoClue2/Client/1''"
  let ?e3 = "CreateClient '':1.8'' True"
  let ?evs = "[?e1, ?e2, ?e3]"
  have "active_count (run initial_manager []) = 0"
    by code_simp
  then have a0: "active_count (run initial_manager []) < 2 ^ 32"
    by simp
  have "active_count (run initial_manager [?e1]) = 0"
    by code_simp
  then have a1: "active_count (run initial_manager [?e1]) < 2 ^ 32"
    by simp
  have "active_count (run initial_manager [?e1, ?e2]) = 1"
    by code_simp
  then have a2: "active_count (run initial_manager [?e1, ?e2]) < 2 ^ 32"
    by simp
  have "active_count (run initial_manager ?evs) = 1"
    by code_simp
  then have a3: "active_count (run initial_manager ?evs) < 2 ^ 32"
    by simp
  have hyp: "\<forall>k \<le> length ?evs. active_count (run initial_manager (take k ?evs)) < 2 ^ 32"
  proof (intro allI impI)
    fix k assume "k \<le> length ?evs"
    then consider "k = 0" | "k = Suc 0" | "k = Suc (Suc 0)" | "k = Suc (Suc (Suc 0))"
      by (auto simp add: le_Suc_eq)
    then show "active_count (run initial_manager (take k ?evs)) < 2 ^ 32"
    proof cases
      case 1 with a0 show ?thesis by simp
    next
      case 2 with a1 show ?thesis by simp
    next
      case 3 with a2 show ?thesis by simp
    next
      case 4 with a3 show ?thesis by simp
    qed
  qed
  have sk: "manager_skeleton (run initial_manager ?evs)
              = Some \<lparr> in_use = True, available_accuracy_level = 8 \<rparr>"
    by code_simp
  have n: "unat (m_active_clients (run initial_manager ?evs)) = 1"
    by code_simp
  from in_use_and_active_count [of ?evs] hyp
  have "unat (m_active_clients (run initial_manager ?evs)) = active_count (run initial_manager ?evs)"
    by blast
  with a0 a1 a2 a3 sk n show ?thesis
    by (simp only: simp_thms)
qed

subsection \<open>One peer, very many clients\<close>

lemma busy_peer_Suc: "busy_peer (Suc n) = busy_peer n @ create_and_start n"
  by (simp add: busy_peer_def)

lemma update_absent: "k \<notin> fst ` set xs \<Longrightarrow> AList.update k v xs = xs @ [(k, v)]"
  by (induction xs) auto

lemma find_append_absent:
  "find P xs = None \<Longrightarrow> find P (xs @ ys) = find P ys"
  by (induction xs) (auto split: if_splits)

lemma release_referenced: "referenced a s \<Longrightarrow> release a s = s"
  by (simp add: release_def)

lemma m_active_clients_client_became_active:
  "m_active_clients (client_became_active s) = m_active_clients s + 1"
  by (simp add: client_became_active_def Let_def remove_grace_timeout_def emit_def
      update_in_use_property_def split: option.splits)

lemma m_active_clients_emit [simp]: "m_active_clients (emit es s) = m_active_clients s"
  by (simp add: emit_def)

text \<open>A \<open>CreateClient\<close> that replaces nothing that would die.\<close>

lemma create_client_quiet:
  assumes sub: "set (map snd (m_clients_by_peer s)) \<subseteq> set (map snd (m_clients_by_path s))"
    and fresh: "client_path_of (m_next_client_id s + 1) \<notin> fst ` set (m_clients_by_path s)"
  shows "snd (on_handle_create_client peer e s)
           = emit [BusWatchName peer]
               ((alloc_client (client_path_of (m_next_client_id s + 1)) e s)
                  \<lparr> m_clients_by_peer := AList.update peer (next_address s) (m_clients_by_peer s),
                     m_clients_by_path :=
                       m_clients_by_path s
                         @ [(client_path_of (m_next_client_id s + 1), next_address s)] \<rparr>)"
proof -
  let ?q = "client_path_of (m_next_client_id s + 1)"
  let ?a = "next_address s"
  let ?s1 = "alloc_client ?q e s"
  let ?s2 = "?s1\<lparr>m_clients_by_peer := AList.update peer ?a (m_clients_by_peer s)\<rparr>"
  have peer: "store_by_peer peer ?a ?s1 = ?s2"
  proof (cases "map_of (m_clients_by_peer s) peer")
    case None
    then show ?thesis by (simp add: store_by_peer_def)
  next
    case (Some old)
    then have "old \<in> set (map snd (m_clients_by_peer s))"
      by (force dest: map_of_SomeD)
    with sub have "referenced old ?s2"
      by (auto simp add: referenced_def)
    then have "release old ?s2 = ?s2"
      by (rule release_referenced)
    with Some show ?thesis by (simp add: store_by_peer_def)
  qed
  from fresh have none: "map_of (m_clients_by_path s) ?q = None"
    by (simp add: map_of_eq_None_iff)
  have path: "store_by_path ?q ?a ?s2
                = ?s2\<lparr>m_clients_by_path := m_clients_by_path s @ [(?q, ?a)]\<rparr>"
    using none by (simp add: store_by_path_def update_absent [OF fresh])
  show ?thesis
    by (simp add: on_handle_create_client_def case_prod_beta create_client_for_peer_stages
        peer path)
qed

lemma fresh_client_path:
  assumes "n < 2 ^ 32" and "k < n"
  shows "client_path_of (of_nat (Suc k)) \<noteq> client_path_of (of_nat (Suc n))"
proof
  assume "client_path_of (of_nat (Suc k)) = client_path_of (of_nat (Suc n))"
  then have "(of_nat (Suc k) :: guint) = of_nat (Suc n)"
    by (rule client_path_of_inj)
  then have "Suc k = Suc n"
    using assms by (intro of_nat_guint_inj) simp_all
  with assms(2) show False by simp
qed

lemma all_started_round:
  assumes ok: "heap_ok s" and st: "all_started n s" and n: "n < 2 ^ 32"
  shows "all_started (Suc n) (run s (create_and_start n))"
proof -
  define q where "q = client_path_of (of_nat (Suc n) :: guint)"
  let ?a = "next_address s"
  let ?new = "set_active_changed_callback (GeoClue2Client_new q True)"
  let ?P = "\<lambda>(a, c). m_object_path c = q \<and> client_skeleton c \<noteq> None"
  from st have cnt: "m_active_clients s = of_nat n" and idn: "m_next_client_id s = of_nat n"
    and act: "active_count s = n"
    and objs: "\<forall>c \<in> set (map snd (objects s)). \<exists>k<n. m_object_path c = client_path_of (of_nat (Suc k))"
    and keys: "\<forall>key \<in> set (map fst (m_clients_by_path s)). \<exists>k<n. key = client_path_of (of_nat (Suc k))"
    and sub: "set (map snd (m_clients_by_peer s)) \<subseteq> set (map snd (m_clients_by_path s))"
    by (simp_all add: all_started_def del: set_map)
  have q: "client_path_of (m_next_client_id s + 1) = q"
    by (simp add: idn q_def add.commute)
  have fresh: "q \<notin> fst ` set (m_clients_by_path s)"
  proof
    assume "q \<in> fst ` set (m_clients_by_path s)"
    with keys obtain k where "k < n" and "q = client_path_of (of_nat (Suc k))"
      by auto
    with fresh_client_path [OF n, of k] show False by (simp add: q_def)
  qed
  have noobj: "find ?P (objects s) = None"
  proof -
    have "\<not> ?P x" if "x \<in> set (objects s)" for x
    proof -
      from that have "snd x \<in> set (map snd (objects s))" by simp
      with objs obtain k where "k < n" and "m_object_path (snd x) = client_path_of (of_nat (Suc k))"
        by blast
      with fresh_client_path [OF n, of k] show ?thesis
        by (cases x) (simp add: q_def)
    qed
    then show ?thesis
      by (auto simp add: find_None_iff)
  qed
  define t where "t = step (CreateClient '':1.7'' True) s"
  have t: "t = emit [BusWatchName '':1.7'']
                 ((alloc_client q True s)
                    \<lparr> m_clients_by_peer := AList.update '':1.7'' ?a (m_clients_by_peer s),
                       m_clients_by_path := m_clients_by_path s @ [(q, ?a)] \<rparr>)"
    unfolding t_def using create_client_quiet [OF sub, of "'':1.7''" True] fresh
    by (simp add: q)
  have t_objects: "objects t = objects s @ [(?a, ?new)]"
    and t_peer: "m_clients_by_peer t = AList.update '':1.7'' ?a (m_clients_by_peer s)"
    and t_path: "m_clients_by_path t = m_clients_by_path s @ [(q, ?a)]"
    and t_cnt: "m_active_clients t = of_nat n"
    and t_id: "m_next_client_id t = of_nat (Suc n)"
    by (simp_all add: t emit_def alloc_client_def cnt idn)
  from ok have "?a \<notin> fst ` set (objects s)"
    by (auto simp add: heap_ok_def)
  then have none: "map_of (objects s) ?a = None"
    by (simp add: map_of_eq_None_iff)
  have t_look: "map_of (objects t) ?a = Some ?new"
    by (simp add: t_objects none map_add_def)
  have "find ?P (objects s @ [(?a, ?new)]) = find ?P [(?a, ?new)]"
    by (rule find_append_absent [OF noobj])
  also have "\<dots> = Some (?a, ?new)"
    by (simp add: set_active_changed_callback_def GeoClue2Client_new_def)
  finally have exported: "exported_client q t = Some (?a, ?new)"
    unfolding exported_client_def t_objects .
  define t' where "t' = t\<lparr>objects := AList.update ?a (activated True ?new) (objects t)\<rparr>"
  define u where "u = step (ClientStart q) t"
  have start: "on_handle_start (Some ?new)
                 = (Some (activated True ?new), [ActiveChangedCallback True, CompleteStart])"
    by (simp add: on_handle_start_cases set_active_changed_callback_def GeoClue2Client_new_def)
  have u: "u = emit [ClientSignal q CompleteStart] (client_became_active t')"
    by (simp add: u_def t'_def client_method_def exported start)
  have reg: "registry_part u = registry_part t'"
    by (simp add: u)
  from registry_partD [OF reg] have u_objects: "objects u = objects t'"
    and u_maps: "maps_part u = maps_part t'"
    by simp_all
  from maps_partD [OF u_maps] have u_peer: "m_clients_by_peer u = m_clients_by_peer t"
    and u_path: "m_clients_by_path u = m_clients_by_path t"
    and u_id: "m_next_client_id u = m_next_client_id t"
    by (simp_all add: t'_def)
  have u_cnt: "m_active_clients u = of_nat (Suc n)"
    by (simp add: u m_active_clients_client_became_active t'_def t_cnt)
  have u_act: "active_count u = Suc n"
  proof -
    from active_filter_update [OF t_look, of "activated True ?new"]
    have "length (filter (\<lambda>(a, c). m_active c) (objects t'))
            = Suc (length (filter (\<lambda>(a, c). m_active c) (objects t)))"
      by (simp add: t'_def set_active_changed_callback_def GeoClue2Client_new_def)
    also have "length (filter (\<lambda>(a, c). m_active c) (objects t)) = active_count s"
      by (simp add: t_objects active_count_def set_active_changed_callback_def
          GeoClue2Client_new_def)
    finally show ?thesis
      by (simp add: active_count_def u_objects act [unfolded active_count_def])
  qed
  have u_objs: "\<forall>c \<in> set (map snd (objects u)).
                  \<exists>k<Suc n. m_object_path c = client_path_of (of_nat (Suc k))"
  proof
    fix c assume "c \<in> set (map snd (objects u))"
    with set_map_snd_update [of ?a "activated True ?new" "objects t"]
    have "c = activated True ?new \<or> c \<in> set (map snd (objects t))"
      unfolding u_objects t'_def by auto
    then consider "m_object_path c = q" | "c \<in> set (map snd (objects s))"
      unfolding t_objects
      by (auto simp add: activated_def set_active_changed_callback_def GeoClue2Client_new_def)
    then show "\<exists>k<Suc n. m_object_path c = client_path_of (of_nat (Suc k))"
    proof cases
      case 1
      then have "m_object_path c = client_path_of (of_nat (Suc n))" by (simp only: q_def)
      then show ?thesis by blast
    next
      case 2
      with objs obtain k where "k < n" and "m_object_path c = client_path_of (of_nat (Suc k))"
        by blast
      then show ?thesis using less_SucI by blast
    qed
  qed
  have u_keys: "\<forall>key \<in> set (map fst (m_clients_by_path u)).
                  \<exists>k<Suc n. key = client_path_of (of_nat (Suc k))"
  proof
    fix key assume "key \<in> set (map fst (m_clients_by_path u))"
    then consider "key = q" | "key \<in> set (map fst (m_clients_by_path s))"
      unfolding u_path t_path by auto
    then show "\<exists>k<Suc n. key = client_path_of (of_nat (Suc k))"
    proof cases
      case 1
      then have "key = client_path_of (of_nat (Suc n))" by (simp only: q_def)
      then show ?thesis by blast
    next
      case 2
      with keys obtain k where "k < n" and "key = client_path_of (of_nat (Suc k))"
        by blast
      then show ?thesis using less_SucI by blast
    qed
  qed
  have u_sub: "set (map snd (m_clients_by_peer u)) \<subseteq> set (map snd (m_clients_by_path u))"
    using set_map_snd_update [of "'':1.7''" ?a "m_clients_by_peer s"] sub
    unfolding u_peer u_path t_peer t_path by auto
  have "run s (create_and_start n) = u"
    by (simp add: run_def create_and_start_def u_def t_def q_def)
  moreover have id': "m_next_client_id u = of_nat (Suc n)"
    by (simp only: u_id t_id)
  have "all_started (Suc n) u"
    unfolding all_started_def
    by (intro conjI) (fact u_cnt id' u_act u_objs u_keys u_sub)+
  ultimately show ?thesis by simp
qed

lemma all_started_busy_peer:
  "n \<le> 2 ^ 32 \<Longrightarrow> all_started n (run initial_manager (busy_peer n))"
proof (induction n)
  case 0
  show ?case
    by (simp add: busy_peer_def run_Nil all_started_def active_count_def initial_manager_def
        set_backend_def GeoClue2Manager_new_def)
next
  case (Suc n)
  then have "all_started n (run initial_manager (busy_peer n))" and "n < 2 ^ 32"
    by simp_all
  with heap_ok_run
  have "all_started (Suc n) (run (run initial_manager (busy_peer n)) (create_and_start n))"
    by (rule all_started_round)
  then show ?case
    by (simp only: busy_peer_Suc run_append)
qed

text \<open>
  Claim C5 as stated fails once the \<open>guint\<close> counter wraps: after one peer has created
  and started \<open>2 ^ 32\<close> clients, all of them are active and the counter is 0.
\<close>

theorem active_count_wrap_counterexample:
  "unat (m_active_clients (run initial_manager (busy_peer (2 ^ 32))))
     \<noteq> active_count (run initial_manager (busy_peer (2 ^ 32)))"
proof -
  have "all_started (2 ^ 32) (run initial_manager (busy_peer (2 ^ 32)))"
    by (rule all_started_busy_peer) simp
  then have "m_active_clients (run initial_manager (busy_peer (2 ^ 32))) = of_nat (2 ^ 32)"
    and a: "active_count (run initial_manager (busy_peer (2 ^ 32))) = 2 ^ 32"
    by (simp_all only: all_started_def)
  then have "m_active_clients (run initial_manager (busy_peer (2 ^ 32))) = 0"
    by simp
  with a show ?thesis
    by simp
qed

end
